theory Spec2Isabelle
  imports Complex_Main "HOL-Library.Multiset"
begin

section \<open>Diputado data (the type declarations of \<^verbatim>\<open>legislators.tsx\<close>)\<close>

text \<open>
  The interfaces \<^verbatim>\<open>Partido\<close>, \<^verbatim>\<open>Militancia\<close>, \<^verbatim>\<open>Militancias\<close>, \<^verbatim>\<open>Diputado\<close> and
  \<^verbatim>\<open>DiputadoPeriodo\<close>. The field \<^verbatim>\<open>Partido.Id\<close> is called \<open>Partido_Id\<close> here, since
  \<open>Id\<close> is the identity relation of HOL. Of \<^verbatim>\<open>Diputado\<close> and \<^verbatim>\<open>DiputadoPeriodo\<close> only the
  fields read by the functions below are kept.
\<close>

record Partido =
  Partido_Id :: string
  Nombre :: string
  Alias :: string

record Militancia =
  FechaInicio :: string
  FechaTermino :: string
  Partido :: Partido

text \<open>\<^verbatim>\<open>Militancia: Militancia | Militancia[]\<close>: one object or an array.\<close>

datatype Militancias = Single Militancia | Many "Militancia list"

record Diputado =
  Diputado_Id :: int
  Militancias :: Militancias

record DiputadoPeriodo =
  Diputado :: Diputado

text \<open>
  Dates are ISO strings in the records; the code reads them through
  \<^verbatim>\<open>new Date(s)\<close>, whose \<^verbatim>\<open>getTime()\<close> is a number of milliseconds. The parser belongs
  to the JavaScript runtime, so every function that reads a date takes it as the
  parameter \<open>tm\<close>. All date strings are taken to be valid (no \<^verbatim>\<open>NaN\<close> time value).
\<close>

type_synonym clock = "string \<Rightarrow> int"

fun normalizeMilitancias :: "Militancias \<Rightarrow> Militancia list" where
  "normalizeMilitancias (Many ms) = ms"
| "normalizeMilitancias (Single m) = [m]"

section \<open>Current party membership\<close>

text \<open>
  \<^verbatim>\<open>getCurrentMilitancia\<close>: \<^verbatim>\<open>militancias.find(m => now >= inicio && now <= termino) || null\<close>.
  The present moment \<^verbatim>\<open>new Date()\<close> is the parameter \<open>now\<close>.
\<close>

definition getCurrentMilitancia :: "clock \<Rightarrow> int \<Rightarrow> Diputado \<Rightarrow> Militancia option" where
  "getCurrentMilitancia tm now diputado =
     (let militancias = normalizeMilitancias (Militancias diputado)
      in find (\<lambda>m. let inicio = tm (FechaInicio m); termino = tm (FechaTermino m)
                    in now \<ge> inicio \<and> now \<le> termino) militancias)"

section \<open>Merging sequential memberships\<close>

record MergedMilitancia =
  merged_Partido :: Partido
  merged_FechaInicio :: string
  merged_FechaTermino :: string
  periodCount :: nat
  originalMilitancias :: "Militancia list"

text \<open>
  \<^verbatim>\<open>arePeriodsSequential\<close>. The quotient \<^verbatim>\<open>diffInMs / (1000 * 60 * 60 * 24)\<close> is a
  floating-point division; it is modelled by the exact rational quotient. The two
  comparisons do not depend on the rounding: the quotient of an integer by 86400000 is
  below 0, or above 1, by far more than one unit in the last place whenever it is so at all.
\<close>

definition arePeriodsSequential :: "clock \<Rightarrow> string \<Rightarrow> string \<Rightarrow> bool" where
  "arePeriodsSequential tm endDate startDate =
     (let diffInMs = tm startDate - tm endDate;
          diffInDays = (of_int diffInMs :: rat) / (1000 * 60 * 60 * 24)
      in diffInDays \<ge> 0 \<and> diffInDays \<le> 1)"

text \<open>The object pushed by the \<^verbatim>\<open>else\<close> branch of the merge loop.\<close>

definition new_merged :: "Militancia \<Rightarrow> MergedMilitancia" where
  "new_merged militancia =
     \<lparr> merged_Partido = Partido militancia,
       merged_FechaInicio = FechaInicio militancia,
       merged_FechaTermino = FechaTermino militancia,
       periodCount = 1,
       originalMilitancias = [militancia] \<rparr>"

text \<open>The three assignments of the \<^verbatim>\<open>if\<close> branch, on the last entry.\<close>

definition extend_merged :: "MergedMilitancia \<Rightarrow> Militancia \<Rightarrow> MergedMilitancia" where
  "extend_merged lastMerged militancia =
     lastMerged \<lparr> merged_FechaTermino := FechaTermino militancia,
                  periodCount := periodCount lastMerged + 1,
                  originalMilitancias := originalMilitancias lastMerged @ [militancia] \<rparr>"

text \<open>
  One iteration of \<^verbatim>\<open>for (const militancia of sorted)\<close>. \<^verbatim>\<open>merged[merged.length - 1]\<close>
  is \<^verbatim>\<open>undefined\<close> on the empty array; the in-place update of \<^verbatim>\<open>lastMerged\<close> replaces the
  last element of \<open>merged\<close>.
\<close>

definition merge_step :: "clock \<Rightarrow> MergedMilitancia list \<Rightarrow> Militancia \<Rightarrow> MergedMilitancia list" where
  "merge_step tm merged militancia =
     (case (if merged = [] then None else Some (last merged)) of
        None \<Rightarrow> merged @ [new_merged militancia]
      | Some lastMerged \<Rightarrow>
          if Partido_Id (merged_Partido lastMerged) = Partido_Id (Partido militancia)
             \<and> arePeriodsSequential tm (merged_FechaTermino lastMerged) (FechaInicio militancia)
          then butlast merged @ [extend_merged lastMerged militancia]
          else merged @ [new_merged militancia])"

text \<open>
  \<^verbatim>\<open>[...normalized].sort((a, b) => time(a.FechaInicio) - time(b.FechaInicio))\<close>: the
  sort of an array is stable, so it is the stable insertion sort by the start time.
\<close>

definition sort_by_start :: "clock \<Rightarrow> Militancia list \<Rightarrow> Militancia list" where
  "sort_by_start tm normalized = sort_key (\<lambda>m. tm (FechaInicio m)) normalized"

definition mergeSequentialMilitancias :: "clock \<Rightarrow> Militancias \<Rightarrow> MergedMilitancia list" where
  "mergeSequentialMilitancias tm militancias =
     (let normalized = normalizeMilitancias militancias;
          sorted = sort_by_start tm normalized
      in foldl (merge_step tm) [] sorted)"

text \<open>
  The claims' words: two intervals are \<^emph>\<open>sequential\<close> when they have the same party id
  and the gap from the end of the first to the start of the second lies in the closed
  range of zero to one day (86400000 ms).
\<close>

definition one_day_ms :: int where
  "one_day_ms = 86400000"

definition gap_ms :: "clock \<Rightarrow> Militancia \<Rightarrow> Militancia \<Rightarrow> int" where
  "gap_ms tm a b = tm (FechaInicio b) - tm (FechaTermino a)"

definition sequential_pair :: "clock \<Rightarrow> Militancia \<Rightarrow> Militancia \<Rightarrow> bool" where
  "sequential_pair tm a b \<longleftrightarrow>
     Partido_Id (Partido a) = Partido_Id (Partido b) \<and> 0 \<le> gap_ms tm a b \<and> gap_ms tm a b \<le> one_day_ms"

text \<open>
  The maximal runs of a list under a relation on neighbours: \<open>runs_from P g a xs\<close> has the
  open run \<open>g\<close>, whose last element is \<open>a\<close>, and closes it at the first neighbour pair not
  in \<open>P\<close>.
\<close>

fun runs_from :: "('a \<Rightarrow> 'a \<Rightarrow> bool) \<Rightarrow> 'a list \<Rightarrow> 'a \<Rightarrow> 'a list \<Rightarrow> 'a list list" where
  "runs_from P g a [] = [g]"
| "runs_from P g a (x # xs) =
     (if P a x then runs_from P (g @ [x]) x xs else g # runs_from P [x] x xs)"

fun runs :: "('a \<Rightarrow> 'a \<Rightarrow> bool) \<Rightarrow> 'a list \<Rightarrow> 'a list list" where
  "runs P [] = []"
| "runs P (x # xs) = runs_from P [x] x xs"

text \<open>
  Epoch milliseconds of the date strings used in the examples (date-only ISO strings are
  read as UTC midnight): the values \<^verbatim>\<open>new Date(s).getTime()\<close> returns for them.
\<close>

definition epoch_ms :: clock where
  "epoch_ms s =
     (if s = ''2018-03-11'' then 1520726400000
      else if s = ''2020-01-01'' then 1577836800000
      else if s = ''2020-01-02'' then 1577923200000
      else if s = ''2020-01-02T00:00:01Z'' then 1577923201000
      else if s = ''2020-01-03'' then 1578009600000
      else if s = ''2020-01-10'' then 1578614400000
      else if s = ''2022-03-11'' then 1646956800000
      else if s = ''2026-03-11'' then 1773187200000
      else 0)"

text \<open>Example data: two parties and a constructor for an interval.\<close>

definition ex_PS :: Partido where
  "ex_PS = \<lparr> Partido_Id = ''PS'', Nombre = ''Partido Socialista'', Alias = ''PS'' \<rparr>"

definition ex_RN :: Partido where
  "ex_RN = \<lparr> Partido_Id = ''RN'', Nombre = ''Renovacion Nacional'', Alias = ''RN'' \<rparr>"

definition ex_militancia :: "string \<Rightarrow> string \<Rightarrow> Partido \<Rightarrow> Militancia" where
  "ex_militancia inicio termino partido =
     \<lparr> FechaInicio = inicio, FechaTermino = termino, Partido = partido \<rparr>"

text \<open>
  Two predicates used by the proofs about the scan: what the last entry records of the
  interval processed last, and the shape of every entry.
\<close>

definition tracks :: "MergedMilitancia \<Rightarrow> Militancia \<Rightarrow> bool" where
  "tracks r a \<longleftrightarrow> Partido_Id (merged_Partido r) = Partido_Id (Partido a)
     \<and> merged_FechaTermino r = FechaTermino a"

definition basic_inv :: "MergedMilitancia \<Rightarrow> bool" where
  "basic_inv r \<longleftrightarrow> originalMilitancias r \<noteq> []
     \<and> periodCount r = length (originalMilitancias r)
     \<and> merged_Partido r = Partido (hd (originalMilitancias r))
     \<and> merged_FechaInicio r = FechaInicio (hd (originalMilitancias r))
     \<and> merged_FechaTermino r = FechaTermino (last (originalMilitancias r))"

section \<open>Parliament chart (\<^verbatim>\<open>parliament-chart.tsx\<close>)\<close>

subsection \<open>Lookup tables\<close>

datatype alignment = Left | Center | Right

definition PARTY_COLORS :: "string \<rightharpoonup> string" where
  "PARTY_COLORS = map_of
     [(''PNL'', ''#00008B''), (''PREP'', ''#0066CC''), (''UDI'', ''#1E90FF''),
      (''RN'', ''#0080FF''), (''EVOP'', ''#4169E1''),
      (''DEM'', ''#87CEEB''), (''DC'', ''#FFA500''), (''AMA'', ''#FFFF00''),
      (''PSC'', ''#FF8C00''), (''PPD'', ''#FF6347''), (''PS'', ''#DC143C''),
      (''PR'', ''#FF4500''), (''LIBERAL'', ''#C71585''), (''PAH'', ''#FF69B4''),
      (''PH'', ''#FF1493''),
      (''PC'', ''#B22222''), (''FA'', ''#9932CC''), (''CS'', ''#8B008B''),
      (''PEV'', ''#4B0082''),
      (''FRVS'', ''#228B22''),
      (''IND'', ''#808080''),
      (''DEFAULT'', ''#A9A9A9'')]"

definition PARTY_ALIGNMENT :: "string \<rightharpoonup> alignment" where
  "PARTY_ALIGNMENT = map_of
     [(''PC'', Left), (''FA'', Left), (''CS'', Left), (''PEV'', Left),
      (''PS'', Left), (''PPD'', Left), (''PR'', Left), (''LIBERAL'', Left),
      (''PAH'', Left), (''PH'', Left), (''PSC'', Center),
      (''DC'', Center), (''AMA'', Center), (''DEM'', Center),
      (''EVOP'', Right), (''RN'', Right), (''UDI'', Right), (''PREP'', Right),
      (''PNL'', Right),
      (''FRVS'', Center), (''IND'', Center)]"

text \<open>\<^verbatim>\<open>PARTY_COLORS[partyId] || PARTY_COLORS.DEFAULT\<close> and \<^verbatim>\<open>PARTY_ALIGNMENT[partyId] || "center"\<close>.\<close>

definition party_color :: "string \<Rightarrow> string" where
  "party_color partyId =
     (case PARTY_COLORS partyId of
        Some c \<Rightarrow> c
      | None \<Rightarrow> (case PARTY_COLORS ''DEFAULT'' of Some c \<Rightarrow> c | None \<Rightarrow> []))"

definition party_alignment :: "string \<Rightarrow> alignment" where
  "party_alignment partyId = (case PARTY_ALIGNMENT partyId of Some a \<Rightarrow> a | None \<Rightarrow> Center)"

subsection \<open>Objects used as maps\<close>

text \<open>
  The accumulator of \<^verbatim>\<open>legislators.reduce\<close> is a plain object \<^verbatim>\<open>{}\<close> keyed by party
  alias. Its own properties are an association list in the order in which they were
  created. Two things make a plain object differ from a map.

  First, \<^verbatim>\<open>acc[key]\<close> reads through the prototype chain: for a key that is no own
  property but names a member of \<^verbatim>\<open>Object.prototype\<close> it is that member, an object and so
  truthy. The members are those of the ECMAScript specification and its Annex B. For such
  a key \<^verbatim>\<open>acc[key].count++\<close> writes the property \<^verbatim>\<open>count\<close> of the member, a shared
  object that outlives the call: the value written is \<^verbatim>\<open>NaN\<close> (\<^verbatim>\<open>undefined + 1\<close>, or
  \<^verbatim>\<open>NaN + 1\<close> the next time). For the key \<^verbatim>\<open>__proto__\<close> the member is
  \<^verbatim>\<open>Object.prototype\<close> itself, and from then on every object inherits a property
  \<^verbatim>\<open>count\<close> with the value \<^verbatim>\<open>NaN\<close>, which is falsy as \<^verbatim>\<open>undefined\<close> is.

  Second, \<^verbatim>\<open>Object.entries\<close> lists the own keys that are array indices first, in
  ascending numeric order, and then the other keys in the order of their creation.
\<close>

definition object_prototype_members :: "string list" where
  "object_prototype_members =
     [''constructor'', ''__defineGetter__'', ''__defineSetter__'', ''hasOwnProperty'',
      ''__lookupGetter__'', ''__lookupSetter__'', ''isPrototypeOf'', ''propertyIsEnumerable'',
      ''toString'', ''valueOf'', ''__proto__'', ''toLocaleString'']"

definition inherited :: "string \<Rightarrow> bool" where
  "inherited key \<longleftrightarrow> key \<in> set object_prototype_members"

text \<open>
  The state shared between calls: how often the clock has been read, and the members of
  \<^verbatim>\<open>Object.prototype\<close> whose property \<^verbatim>\<open>count\<close> has been written, latest first
  (\<^verbatim>\<open>__proto__\<close> stands for \<^verbatim>\<open>Object.prototype\<close> itself).
\<close>

record world =
  clock_reads :: nat
  count_written :: "string list"

definition initial_world :: world where
  "initial_world = \<lparr> clock_reads = 0, count_written = [] \<rparr>"

text \<open>
  The value of \<^verbatim>\<open>obj[key]\<close> for a plain object with the own properties \<open>obj\<close>: an own
  value, an inherited member, the \<^verbatim>\<open>NaN\<close> left in \<^verbatim>\<open>Object.prototype.count\<close>, or
  \<^verbatim>\<open>undefined\<close>. Own values here are objects or non-empty strings, so they are truthy.
\<close>

datatype 'a js_value = Own 'a | Member string | NaN_count | Undefined

definition js_get :: "world \<Rightarrow> (string \<times> 'a) list \<Rightarrow> string \<Rightarrow> 'a js_value" where
  "js_get w obj key =
     (case map_of obj key of
        Some v \<Rightarrow> Own v
      | None \<Rightarrow>
          if inherited key then Member key
          else if key = ''count'' \<and> ''__proto__'' \<in> set (count_written w) then NaN_count
          else Undefined)"

fun truthy :: "'a js_value \<Rightarrow> bool" where
  "truthy (Own v) = True"
| "truthy (Member k) = True"
| "truthy NaN_count = False"
| "truthy Undefined = False"

text \<open>The digits of a key, its numeric value, and whether it is an array index.\<close>

definition is_digit :: "char \<Rightarrow> bool" where
  "is_digit c \<longleftrightarrow> c \<in> set ''0123456789''"

definition array_index_value :: "string \<Rightarrow> int" where
  "array_index_value key = foldl (\<lambda>n c. 10 * n + (of_char c - 48)) 0 key"

definition is_array_index :: "string \<Rightarrow> bool" where
  "is_array_index key \<longleftrightarrow>
     key \<noteq> [] \<and> list_all is_digit key \<and> (key = ''0'' \<or> hd key \<noteq> CHR ''0'')
     \<and> array_index_value key < 4294967295"

definition object_entries :: "(string \<times> 'a) list \<Rightarrow> (string \<times> 'a) list" where
  "object_entries obj =
     sort_key (\<lambda>(k, v). array_index_value k) (filter (\<lambda>(k, v). is_array_index k) obj)
     @ filter (\<lambda>(k, v). \<not> is_array_index k) obj"

subsection \<open>Grouping by party\<close>

text \<open>The field \<^verbatim>\<open>count\<close> is \<open>partyCount\<close>.\<close>

record party =
  partyName :: string
  partyAlias :: string
  partyCount :: nat
  color :: string
  alignment :: alignment

text \<open>
  \<^verbatim>\<open>currentParty?.Partido.Alias || "IND"\<close> and \<^verbatim>\<open>currentParty?.Partido.Nombre || "Independiente"\<close>:
  the empty string is falsy.
\<close>

definition current_partyId :: "Militancia option \<Rightarrow> string" where
  "current_partyId currentParty =
     (case currentParty of
        None \<Rightarrow> ''IND''
      | Some m \<Rightarrow> if Alias (Partido m) = [] then ''IND'' else Alias (Partido m))"

definition current_partyName :: "Militancia option \<Rightarrow> string" where
  "current_partyName currentParty =
     (case currentParty of
        None \<Rightarrow> ''Independiente''
      | Some m \<Rightarrow> if Nombre (Partido m) = [] then ''Independiente'' else Nombre (Partido m))"

text \<open>
  The object literal of the \<^verbatim>\<open>if\<close> branch. It is evaluated only when \<^verbatim>\<open>acc[partyId]\<close> is
  falsy, so for a key that names no inherited member; \<open>party_color\<close> and
  \<open>party_alignment\<close> are then the lookups in the tables' own keys, the inherited \<^verbatim>\<open>NaN\<close>
  being falsy like \<^verbatim>\<open>undefined\<close>.
\<close>

definition new_group :: "Militancia option \<Rightarrow> string \<Rightarrow> party" where
  "new_group currentParty partyId =
     \<lparr> partyName = current_partyName currentParty,
       partyAlias = partyId,
       partyCount = 0,
       color = party_color partyId,
       alignment = party_alignment partyId \<rparr>"

text \<open>\<^verbatim>\<open>acc[partyId].count++\<close> on an own property.\<close>

definition increment_count :: "(string \<times> party) list \<Rightarrow> string \<Rightarrow> (string \<times> party) list" where
  "increment_count acc partyId =
     map (\<lambda>(k, p). if k = partyId then (k, p \<lparr> partyCount := partyCount p + 1 \<rparr>) else (k, p)) acc"

text \<open>
  The callback of \<^verbatim>\<open>reduce\<close>, on the accumulator and the shared state.
  \<^verbatim>\<open>getCurrentMilitancia\<close> reads the clock (\<^verbatim>\<open>new Date()\<close>) once per legislator: \<open>nows i\<close>
  is the value of read number \<open>i\<close>. After the \<^verbatim>\<open>if\<close>, \<^verbatim>\<open>acc[partyId]\<close> is an own group or
  an inherited member, so the last two cases are not reached.
\<close>

definition group_step :: "clock \<Rightarrow> (nat \<Rightarrow> int) \<Rightarrow> (string \<times> party) list \<times> world \<Rightarrow> DiputadoPeriodo
     \<Rightarrow> (string \<times> party) list \<times> world" where
  "group_step tm nows state leg =
     (let acc = fst state;
          w = snd state;
          now = nows (clock_reads w);
          w1 = w \<lparr> clock_reads := clock_reads w + 1 \<rparr>;
          currentParty = getCurrentMilitancia tm now (Diputado leg);
          partyId = current_partyId currentParty;
          acc1 = (if \<not> truthy (js_get w1 acc partyId)
                  then acc @ [(partyId, new_group currentParty partyId)]
                  else acc)
      in case js_get w1 acc1 partyId of
           Own p \<Rightarrow> (increment_count acc1 partyId, w1)
         | Member k \<Rightarrow> (acc1, w1 \<lparr> count_written := k # count_written w1 \<rparr>)
         | NaN_count \<Rightarrow> (acc1, w1)
         | Undefined \<Rightarrow> (acc1, w1))"

definition partyGroups_run :: "clock \<Rightarrow> (nat \<Rightarrow> int) \<Rightarrow> world \<Rightarrow> DiputadoPeriodo list
     \<Rightarrow> (string \<times> party) list \<times> world" where
  "partyGroups_run tm nows w legislators = foldl (group_step tm nows) ([], w) legislators"

text \<open>
  The groups of a run in which every read of the clock gives \<open>now\<close>. (They are the same
  from every state of the shared objects, see \<open>partyGroups_run_groups\<close> below.)
\<close>

definition partyGroups :: "clock \<Rightarrow> int \<Rightarrow> DiputadoPeriodo list \<Rightarrow> (string \<times> party) list" where
  "partyGroups tm now legislators = fst (partyGroups_run tm (\<lambda>i. now) initial_world legislators)"

text \<open>The party a legislator is counted in.\<close>

definition partyId_of :: "clock \<Rightarrow> int \<Rightarrow> DiputadoPeriodo \<Rightarrow> string" where
  "partyId_of tm now leg = current_partyId (getCurrentMilitancia tm now (Diputado leg))"

subsection \<open>Party order\<close>

text \<open>
  \<^verbatim>\<open>.sort(([, a], [, b]) => b.count - a.count)\<close>: a stable sort by descending count, so
  the stable insertion sort on the negated count.
\<close>

definition sort_by_count_desc :: "(string \<times> party) list \<Rightarrow> (string \<times> party) list" where
  "sort_by_count_desc entries = sort_key (\<lambda>(k, p). - int (partyCount p)) entries"

text \<open>\<^verbatim>\<open>Object.entries(partyGroups).filter(...).sort(...)\<close>, three times.\<close>

definition leftParties :: "(string \<times> party) list \<Rightarrow> (string \<times> party) list" where
  "leftParties groups =
     sort_by_count_desc (filter (\<lambda>(k, p). alignment p = Left) (object_entries groups))"

definition centerParties :: "(string \<times> party) list \<Rightarrow> (string \<times> party) list" where
  "centerParties groups =
     sort_by_count_desc (filter (\<lambda>(k, p). alignment p = Center) (object_entries groups))"

definition rightParties :: "(string \<times> party) list \<Rightarrow> (string \<times> party) list" where
  "rightParties groups =
     sort_by_count_desc (filter (\<lambda>(k, p). alignment p = Right) (object_entries groups))"

definition sortedParties :: "(string \<times> party) list \<Rightarrow> (string \<times> party) list" where
  "sortedParties groups = leftParties groups @ centerParties groups @ rev (rightParties groups)"

subsection \<open>Seats per row\<close>

definition rows :: nat where
  "rows = 5"

definition baseSeatsPerRow :: int where
  "baseSeatsPerRow = 20"

text \<open>
  \<^verbatim>\<open>Array.from({ length: rows }, (_, i) => Math.round(baseSeatsPerRow + i * 8))\<close>, then
  \<^verbatim>\<open>seatsPerRowArray[rows - 1] += adjustment\<close>. The entries are integers, so
  \<^verbatim>\<open>Math.round\<close> changes nothing; the last entry can be negative.
\<close>

definition seatsPerRowArray :: "nat \<Rightarrow> int list" where
  "seatsPerRowArray totalSeats =
     (let arr = map (\<lambda>i. baseSeatsPerRow + int i * 8) [0..<rows];
          totalCalculated = foldl (\<lambda>a b. a + b) 0 arr;
          adjustment = int totalSeats - totalCalculated
      in arr[rows - 1 := arr ! (rows - 1) + adjustment])"

subsection \<open>Positions\<close>

text \<open>
  A JavaScript number is a \<open>real option\<close> here: \<open>None\<close> is \<^verbatim>\<open>NaN\<close>. Arithmetic on finite
  numbers is exact (rounding is not modelled); the diameter is a finite number. Division
  never raises: \<^verbatim>\<open>0 / 0\<close> is \<^verbatim>\<open>NaN\<close>. (A non-zero number over zero is an infinity; the
  loops below divide \<open>seat\<close> by \<open>seatsInRow - 1\<close> with \<open>seat < seatsInRow\<close>, so the
  divisor is zero only when the dividend is.) Every operation on \<^verbatim>\<open>NaN\<close> gives \<^verbatim>\<open>NaN\<close>.
\<close>

definition js_div :: "real \<Rightarrow> real \<Rightarrow> real option" where
  "js_div a b = (if b = 0 then None else Some (a / b))"

record position =
  pos_x :: "real option"
  pos_y :: "real option"
  pos_angle :: "real option"

text \<open>The body of the inner loop: \<^verbatim>\<open>angle = Math.PI * (1 - seat / (seatsInRow - 1))\<close>.\<close>

definition seat_position :: "real \<Rightarrow> nat \<Rightarrow> int \<Rightarrow> nat \<Rightarrow> position" where
  "seat_position diameter row seatsInRow seat =
     (let radius = (diameter / 2) * (0.5 + real row * 0.12);
          angle = map_option (\<lambda>q. pi * (1 - q)) (js_div (real seat) (real_of_int (seatsInRow - 1)));
          x = map_option (\<lambda>a. diameter / 2 + radius * cos a) angle;
          y = map_option (\<lambda>a. diameter / 2 - radius * sin a) angle
      in \<lparr> pos_x = x, pos_y = y, pos_angle = angle \<rparr>)"

text \<open>\<^verbatim>\<open>for (let seat = 0; seat < seatsInRow; seat++)\<close>: no iteration when \<open>seatsInRow \<le> 0\<close>.\<close>

definition row_positions :: "real \<Rightarrow> nat \<Rightarrow> int \<Rightarrow> position list" where
  "row_positions diameter row seatsInRow =
     map (seat_position diameter row seatsInRow) [0..<nat seatsInRow]"

definition allPositions :: "real \<Rightarrow> int list \<Rightarrow> position list" where
  "allPositions diameter seatsPerRow =
     concat (map (\<lambda>row. row_positions diameter row (seatsPerRow ! row)) [0..<rows])"

text \<open>
  \<^verbatim>\<open>allPositions.sort((a, b) => b.angle - a.angle)\<close>. When every angle is a number the
  comparator is consistent and the result is the stable sort by descending angle. When
  an angle is \<^verbatim>\<open>NaN\<close> the comparator is not consistent and the order is left to the
  JavaScript engine: it is the parameter \<open>engine\<close>, of which the theorems assume at most
  that it returns a reordering of its argument (\<open>reorders\<close>).
\<close>

definition sort_positions :: "(position list \<Rightarrow> position list) \<Rightarrow> position list \<Rightarrow> position list" where
  "sort_positions engine ps =
     (if list_all (\<lambda>p. pos_angle p \<noteq> None) ps
      then sort_key (\<lambda>p. - the (pos_angle p)) ps
      else engine ps)"

definition reorders :: "(position list \<Rightarrow> position list) \<Rightarrow> bool" where
  "reorders engine \<longleftrightarrow> (\<forall>ps. mset (engine ps) = mset ps)"

subsection \<open>Assigning parties to seats\<close>

record seat =
  seat_x :: "real option"
  seat_y :: "real option"
  seat_color :: string
  seat_partyAlias :: string

text \<open>The variables of the assignment loop.\<close>

record assign_state =
  currentPartyIndex :: nat
  currentPartySeats :: nat
  currentPartyData :: "party option"
  seats :: "seat list"

text \<open>Reading a property of \<^verbatim>\<open>undefined\<close> throws.\<close>

datatype error = TypeError

text \<open>
  \<^verbatim>\<open>let [, currentPartyData] = sortedParties[0] || ["IND", partyGroups["IND"]]\<close>:
  \<open>None\<close> is \<^verbatim>\<open>undefined\<close>. In the loop, \<open>parties\<close> is the array \<^verbatim>\<open>sortedParties\<close>.
\<close>

definition initial_state :: "(string \<times> party) list \<Rightarrow> (string \<times> party) list \<Rightarrow> assign_state" where
  "initial_state groups parties =
     \<lparr> currentPartyIndex = 0,
       currentPartySeats = 0,
       currentPartyData = (case parties of
                             (k, p) # rest \<Rightarrow> Some p
                           | [] \<Rightarrow> map_of groups ''IND''),
       seats = [] \<rparr>"

text \<open>
  \<^verbatim>\<open>if (currentPartySeats >= currentPartyData.count) { currentPartyIndex++; if (...) {...} }\<close>,
  written once for the two versions of the component.
\<close>

definition next_party :: "(string \<times> party) list \<Rightarrow> assign_state \<Rightarrow> error + assign_state" where
  "next_party parties st =
     (case currentPartyData st of
        None \<Rightarrow> Inl TypeError
      | Some d \<Rightarrow>
          if currentPartySeats st \<ge> partyCount d
          then (let st' = st \<lparr> currentPartyIndex := currentPartyIndex st + 1 \<rparr>
                in if currentPartyIndex st' < length parties
                   then Inr (st' \<lparr> currentPartyData := Some (snd (parties ! currentPartyIndex st')),
                                   currentPartySeats := 0 \<rparr>)
                   else Inr st')
          else Inr st)"

text \<open>\<^verbatim>\<open>seats.push({ x, y, color, partyAlias }); currentPartySeats++\<close>.\<close>

definition push_seat :: "real option \<Rightarrow> real option \<Rightarrow> assign_state \<Rightarrow> error + assign_state" where
  "push_seat x y st =
     (case currentPartyData st of
        None \<Rightarrow> Inl TypeError
      | Some d \<Rightarrow>
          Inr (st \<lparr> seats := seats st @ [\<lparr> seat_x = x, seat_y = y,
                                           seat_color = color d, seat_partyAlias = partyAlias d \<rparr>],
                    currentPartySeats := currentPartySeats st + 1 \<rparr>))"

text \<open>
  One iteration of \<^verbatim>\<open>for (let i = 0; i < totalSeats; i++)\<close>; \<^verbatim>\<open>allPositions[i]\<close> is
  \<^verbatim>\<open>undefined\<close> beyond the end of the array, and \<^verbatim>\<open>position.x\<close> throws then.
\<close>

definition assign_step :: "(string \<times> party) list \<Rightarrow> position list \<Rightarrow> assign_state \<Rightarrow> nat \<Rightarrow> error + assign_state" where
  "assign_step parties positions st i =
     (case next_party parties st of
        Inl e \<Rightarrow> Inl e
      | Inr st1 \<Rightarrow>
          if i < length positions
          then push_seat (pos_x (positions ! i)) (pos_y (positions ! i)) st1
          else Inl TypeError)"

fun assign_loop :: "(string \<times> party) list \<Rightarrow> position list \<Rightarrow> nat list \<Rightarrow> assign_state \<Rightarrow> error + assign_state" where
  "assign_loop parties positions [] st = Inr st"
| "assign_loop parties positions (i # is) st =
     (case assign_step parties positions st i of
        Inl e \<Rightarrow> Inl e
      | Inr st' \<Rightarrow> assign_loop parties positions is st')"

subsection \<open>The layout\<close>

text \<open>
  What the component renders: the seats, and the legend (\<^verbatim>\<open>sortedParties.map\<close>).
\<close>

record layout_result =
  layout_seats :: "seat list"
  layout_legend :: "(string \<times> party) list"

text \<open>
  The component on the shared state: the grouping is the only part that reads or writes
  it.
\<close>

definition layout_run :: "(position list \<Rightarrow> position list) \<Rightarrow> clock \<Rightarrow> (nat \<Rightarrow> int) \<Rightarrow> world
     \<Rightarrow> DiputadoPeriodo list \<Rightarrow> real \<Rightarrow> (error + layout_result) \<times> world" where
  "layout_run engine tm nows w legislators diameter =
     (let run = partyGroups_run tm nows w legislators;
          groups = fst run;
          parties = sortedParties groups;
          totalSeats = length legislators;
          positions = sort_positions engine (allPositions diameter (seatsPerRowArray totalSeats))
      in (case assign_loop parties positions [0..<totalSeats] (initial_state groups parties) of
            Inl e \<Rightarrow> Inl e
          | Inr st \<Rightarrow> Inr \<lparr> layout_seats = seats st, layout_legend = parties \<rparr>,
          snd run))"

text \<open>The result of a run in which every read of the clock gives \<open>now\<close>.\<close>

definition layout :: "(position list \<Rightarrow> position list) \<Rightarrow> clock \<Rightarrow> int \<Rightarrow> DiputadoPeriodo list \<Rightarrow> real \<Rightarrow> error + layout_result" where
  "layout engine tm now legislators diameter =
     fst (layout_run engine tm (\<lambda>i. now) initial_world legislators diameter)"

subsection \<open>The second version of the component in the same file\<close>

text \<open>
  Lines 351 to 419: all entries of the groups sorted by descending count, and positions computed while
  the seats are assigned. \<^verbatim>\<open>Math.ceil(totalSeats / rows)\<close> and
  \<^verbatim>\<open>Math.ceil(seatsPerRow * (1 + row * 0.2))\<close> are modelled with exact rationals: the
  floating-point product is exact whenever the exact one is an integer, and is at least a
  fifth away from an integer otherwise, so the ceiling is the same.
\<close>

definition legacy_seatsPerRow :: "nat \<Rightarrow> nat" where
  "legacy_seatsPerRow totalSeats = nat \<lceil>(of_nat totalSeats :: rat) / of_nat rows\<rceil>"

definition legacy_seatsInRow :: "nat \<Rightarrow> nat \<Rightarrow> int" where
  "legacy_seatsInRow seatsPerRow row = \<lceil>(of_nat seatsPerRow :: rat) * (1 + of_nat row * (2 / 10))\<rceil>"

definition legacy_position :: "real \<Rightarrow> nat \<Rightarrow> int \<Rightarrow> nat \<Rightarrow> position" where
  "legacy_position diameter row seatsInRow seat =
     (let radius = (diameter / 2) * (0.4 + real row * 0.15);
          angle = map_option (\<lambda>q. - pi + q * pi) (js_div (real seat) (real_of_int (seatsInRow - 1)));
          x = map_option (\<lambda>a. diameter / 2 + radius * cos a) angle;
          y = map_option (\<lambda>a. diameter / 2 + radius * sin a) angle
      in \<lparr> pos_x = x, pos_y = y, pos_angle = angle \<rparr>)"

definition legacy_seat_step :: "(string \<times> party) list \<Rightarrow> real \<Rightarrow> nat \<Rightarrow> int \<Rightarrow> assign_state \<Rightarrow> nat \<Rightarrow> error + assign_state" where
  "legacy_seat_step parties diameter row seatsInRow st seat =
     (let p = legacy_position diameter row seatsInRow seat
      in case next_party parties st of
           Inl e \<Rightarrow> Inl e
         | Inr st1 \<Rightarrow> push_seat (pos_x p) (pos_y p) st1)"

text \<open>
  \<^verbatim>\<open>for (let seat = 0; seat < seatsInRow && seats.length < totalSeats; seat++)\<close>: the loop
  is left at the first seat for which the second condition fails.
\<close>

fun legacy_row_loop :: "(string \<times> party) list \<Rightarrow> real \<Rightarrow> nat \<Rightarrow> nat \<Rightarrow> int \<Rightarrow> nat list \<Rightarrow> assign_state \<Rightarrow> error + assign_state" where
  "legacy_row_loop parties diameter totalSeats row seatsInRow [] st = Inr st"
| "legacy_row_loop parties diameter totalSeats row seatsInRow (seat # rest) st =
     (if length (seats st) < totalSeats
      then (case legacy_seat_step parties diameter row seatsInRow st seat of
              Inl e \<Rightarrow> Inl e
            | Inr st' \<Rightarrow> legacy_row_loop parties diameter totalSeats row seatsInRow rest st')
      else Inr st)"

fun legacy_rows_loop :: "(string \<times> party) list \<Rightarrow> real \<Rightarrow> nat \<Rightarrow> nat \<Rightarrow> nat list \<Rightarrow> assign_state \<Rightarrow> error + assign_state" where
  "legacy_rows_loop parties diameter totalSeats seatsPerRow [] st = Inr st"
| "legacy_rows_loop parties diameter totalSeats seatsPerRow (row # rest) st =
     (let seatsInRow = legacy_seatsInRow seatsPerRow row
      in case legacy_row_loop parties diameter totalSeats row seatsInRow [0..<nat seatsInRow] st of
           Inl e \<Rightarrow> Inl e
         | Inr st' \<Rightarrow> legacy_rows_loop parties diameter totalSeats seatsPerRow rest st')"

definition legacy_layout :: "clock \<Rightarrow> int \<Rightarrow> DiputadoPeriodo list \<Rightarrow> real \<Rightarrow> error + layout_result" where
  "legacy_layout tm now legislators diameter =
     (let groups = partyGroups tm now legislators;
          parties = sort_by_count_desc (object_entries groups);
          totalSeats = length legislators;
          seatsPerRow = legacy_seatsPerRow totalSeats
      in case legacy_rows_loop parties diameter totalSeats seatsPerRow [0..<rows] (initial_state groups parties) of
           Inl e \<Rightarrow> Inl e
         | Inr st \<Rightarrow> Inr \<lparr> layout_seats = seats st, layout_legend = parties \<rparr>)"

section \<open>Notions used in the statements\<close>

text \<open>An interval contains the present moment.\<close>

definition covers :: "clock \<Rightarrow> int \<Rightarrow> Militancia \<Rightarrow> bool" where
  "covers tm now m \<longleftrightarrow> tm (FechaInicio m) \<le> now \<and> now \<le> tm (FechaTermino m)"

text \<open>The order of first occurrence: each element once, where it is first seen.\<close>

definition first_seen :: "'a list \<Rightarrow> 'a list" where
  "first_seen xs = rev (remdups (rev xs))"

text \<open>
  The callback of \<^verbatim>\<open>reduce\<close> without the shared state, for a given reading of the
  clock: what it does to the accumulator.
\<close>

definition counted_step :: "clock \<Rightarrow> int \<Rightarrow> (string \<times> party) list \<Rightarrow> DiputadoPeriodo \<Rightarrow> (string \<times> party) list" where
  "counted_step tm now acc leg =
     (let currentParty = getCurrentMilitancia tm now (Diputado leg);
          partyId = current_partyId currentParty
      in if inherited partyId then acc
         else increment_count
                (if map_of acc partyId = None then acc @ [(partyId, new_group currentParty partyId)] else acc)
                partyId)"

text \<open>
  What an entry of the accumulator records about the party ids \<open>ids\<close> of the legislators
  counted so far, and the accumulator as a whole: a group for every id that names no
  inherited member.
\<close>

definition entry_ok :: "string list \<Rightarrow> string \<times> party \<Rightarrow> bool" where
  "entry_ok ids e \<longleftrightarrow> partyAlias (snd e) = fst e
     \<and> partyCount (snd e) = count_list ids (fst e)
     \<and> color (snd e) = party_color (fst e)
     \<and> alignment (snd e) = party_alignment (fst e)"

definition groups_inv :: "string list \<Rightarrow> (string \<times> party) list \<Rightarrow> bool" where
  "groups_inv ids acc \<longleftrightarrow>
     map fst acc = first_seen (filter (\<lambda>k. \<not> inherited k) ids) \<and> list_all (entry_ok ids) acc"


text \<open>
  The seat made of a position and a party, the sequence of the parties' blocks (each
  party as many times as it has seats), and the number of seats of the first \<open>j\<close>
  parties.
\<close>

definition mk_seat :: "position \<Rightarrow> party \<Rightarrow> seat" where
  "mk_seat pos p = \<lparr> seat_x = pos_x pos, seat_y = pos_y pos, seat_color = color p, seat_partyAlias = partyAlias p \<rparr>"

definition blocks :: "(string \<times> party) list \<Rightarrow> party list" where
  "blocks parties = concat (map (\<lambda>(k, p). replicate (partyCount p) p) parties)"

definition seats_before :: "(string \<times> party) list \<Rightarrow> nat \<Rightarrow> nat" where
  "seats_before parties j = sum_list (map (\<lambda>e. partyCount (snd e)) (take j parties))"

text \<open>
  The invariant of the assignment loop before seat \<open>i\<close>, and the weaker fact that a
  current party is there.
\<close>

definition assign_inv :: "(string \<times> party) list \<Rightarrow> position list \<Rightarrow> nat \<Rightarrow> assign_state \<Rightarrow> bool" where
  "assign_inv parties positions i st \<longleftrightarrow>
     currentPartyIndex st < length parties
     \<and> currentPartyData st = Some (snd (parties ! currentPartyIndex st))
     \<and> seats_before parties (currentPartyIndex st) + currentPartySeats st = i
     \<and> currentPartySeats st \<le> partyCount (snd (parties ! currentPartyIndex st))
     \<and> seats st = map2 mk_seat (take i positions) (take i (blocks parties))"

definition has_party :: "assign_state \<Rightarrow> bool" where
  "has_party st \<longleftrightarrow> currentPartyData st \<noteq> None"

text \<open>
  When the parties have fewer seats than there are legislators, the loop stays at the last
  party: the block sequence followed by the last party, cut to \<open>n\<close> seats, and the
  invariant of the loop from there on.
\<close>

definition padded_blocks :: "(string \<times> party) list \<Rightarrow> nat \<Rightarrow> party list" where
  "padded_blocks parties n = take n (blocks parties @ replicate n (snd (last parties)))"

definition pad_inv :: "(string \<times> party) list \<Rightarrow> position list \<Rightarrow> nat \<Rightarrow> nat \<Rightarrow> assign_state \<Rightarrow> bool" where
  "pad_inv parties positions n i st \<longleftrightarrow>
     currentPartyData st = Some (snd (last parties))
     \<and> partyCount (snd (last parties)) \<le> currentPartySeats st
     \<and> length parties \<le> currentPartyIndex st + 1
     \<and> seats st = map2 mk_seat (take i positions) (take i (blocks parties @ replicate n (snd (last parties))))"

text \<open>A legislator for whom a group is made: the party id names no inherited member.\<close>

definition grouped :: "clock \<Rightarrow> int \<Rightarrow> DiputadoPeriodo \<Rightarrow> bool" where
  "grouped tm now leg \<longleftrightarrow> \<not> inherited (partyId_of tm now leg)"

text \<open>The position whose coordinates and angle are all \<^verbatim>\<open>NaN\<close>.\<close>

definition nan_position :: position where
  "nan_position = \<lparr> pos_x = None, pos_y = None, pos_angle = None \<rparr>"

section \<open>Example data\<close>

text \<open>
  A present moment (14 November 2023), a legislator whose only membership runs from
  2022-03-11 to 2026-03-11 in the party with the given alias, a legislator whose only
  membership has ended, a representative with two memberships that both contain the
  present moment, and a party group as the grouping builds it.
\<close>

definition ex_now :: int where
  "ex_now = 1700000000000"

definition ex_legislator :: "string \<Rightarrow> DiputadoPeriodo" where
  "ex_legislator alias =
     \<lparr> Diputado = \<lparr> Diputado_Id = 1,
          Militancias = Single (ex_militancia ''2022-03-11'' ''2026-03-11''
             \<lparr> Partido_Id = alias, Nombre = alias, Alias = alias \<rparr>) \<rparr> \<rparr>"

definition ex_expired :: DiputadoPeriodo where
  "ex_expired = \<lparr> Diputado = \<lparr> Diputado_Id = 2,
       Militancias = Single (ex_militancia ''2018-03-11'' ''2022-03-11'' ex_PS) \<rparr> \<rparr>"

definition ex_two_current :: Diputado where
  "ex_two_current = \<lparr> Diputado_Id = 7,
       Militancias = Many [ex_militancia ''2018-03-11'' ''2026-03-11'' ex_PS,
                           ex_militancia ''2022-03-11'' ''2026-03-11'' ex_RN] \<rparr>"

definition ex_party :: "string \<Rightarrow> nat \<Rightarrow> string \<times> party" where
  "ex_party alias n =
     (alias, \<lparr> partyName = alias, partyAlias = alias, partyCount = n,
               color = party_color alias, alignment = party_alignment alias \<rparr>)"

section \<open>Lemmas: merging sequential memberships\<close>

lemma arePeriodsSequential_iff:
  "arePeriodsSequential tm e s \<longleftrightarrow> 0 \<le> tm s - tm e \<and> tm s - tm e \<le> one_day_ms"
proof -
  have "(of_int (tm s - tm e) :: rat) / 86400000 \<le> 1 \<longleftrightarrow> (of_int (tm s - tm e) :: rat) \<le> of_int 86400000"
    by (simp add: divide_le_eq)
  also have "\<dots> \<longleftrightarrow> tm s - tm e \<le> 86400000"
    by (simp only: of_int_le_iff)
  finally have upper: "(of_int (tm s - tm e) :: rat) / 86400000 \<le> 1 \<longleftrightarrow> tm s - tm e \<le> 86400000" .
  have lower: "(0::rat) \<le> of_int (tm s - tm e) / 86400000 \<longleftrightarrow> 0 \<le> tm s - tm e"
    by (simp add: zero_le_divide_iff)
  show ?thesis
    unfolding arePeriodsSequential_def Let_def one_day_ms_def using upper lower by simp
qed

lemma merge_step_snoc:
  assumes "tracks r a"
  shows "merge_step tm (acc @ [r]) x =
           (if sequential_pair tm a x then acc @ [extend_merged r x] else acc @ [r, new_merged x])"
  using assms
  by (simp add: merge_step_def tracks_def sequential_pair_def gap_ms_def arePeriodsSequential_iff)

lemma tracks_extend: "tracks r a \<Longrightarrow> sequential_pair tm a x \<Longrightarrow> tracks (extend_merged r x) x"
  by (simp add: tracks_def extend_merged_def sequential_pair_def)

lemma tracks_new: "tracks (new_merged x) x"
  by (simp add: tracks_def new_merged_def)

lemma scan_runs_from:
  "tracks r a \<Longrightarrow>
   map originalMilitancias (foldl (merge_step tm) (acc @ [r]) xs) =
     map originalMilitancias acc @ runs_from (sequential_pair tm) (originalMilitancias r) a xs"
proof (induction xs arbitrary: acc r a)
  case Nil
  then show ?case by simp
next
  case (Cons x xs)
  show ?case
  proof (cases "sequential_pair tm a x")
    case True
    have "tracks (extend_merged r x) x" using Cons.prems True by (rule tracks_extend)
    from Cons.IH[OF this, of acc] show ?thesis
      using True Cons.prems by (simp add: merge_step_snoc extend_merged_def)
  next
    case False
    from Cons.IH[OF tracks_new, of "acc @ [r]" x] show ?thesis
      using False Cons.prems by (simp add: merge_step_snoc new_merged_def)
  qed
qed

lemma scan_runs: "map originalMilitancias (foldl (merge_step tm) [] xs) = runs (sequential_pair tm) xs"
proof (cases xs)
  case Nil
  then show ?thesis by simp
next
  case (Cons x xs')
  have "merge_step tm [] x = [] @ [new_merged x]" by (simp add: merge_step_def)
  with scan_runs_from[OF tracks_new, of tm "[]" x xs'] show ?thesis
    using Cons by (simp add: new_merged_def)
qed

lemma concat_runs_from: "concat (runs_from P g a xs) = g @ xs"
  by (induction xs arbitrary: g a) auto

lemma concat_runs: "concat (runs P xs) = xs"
  by (cases xs) (auto simp: concat_runs_from)

lemma runs_from_chain:
  "g \<noteq> [] \<Longrightarrow> last g = a \<Longrightarrow> successively P g \<Longrightarrow>
     \<forall>h \<in> set (runs_from P g a xs). h \<noteq> [] \<and> successively P h"
proof (induction xs arbitrary: g a)
  case Nil
  then show ?case by simp
next
  case (Cons x xs)
  show ?case
  proof (cases "P a x")
    case True
    have "successively P (g @ [x])"
      using Cons.prems True by (simp add: successively_append_iff)
    with Cons.IH[of "g @ [x]" x] True show ?thesis by simp
  next
    case False
    with Cons.IH[of "[x]" x] Cons.prems show ?thesis by simp
  qed
qed

lemma runs_chain: "\<forall>h \<in> set (runs P xs). h \<noteq> [] \<and> successively P h"
proof (cases xs)
  case Nil
  then show ?thesis by simp
next
  case (Cons x xs')
  have "\<forall>h \<in> set (runs_from P [x] x xs'). h \<noteq> [] \<and> successively P h"
    by (rule runs_from_chain) simp_all
  then show ?thesis using Cons by simp
qed

lemma runs_from_hd: "g \<noteq> [] \<Longrightarrow> hd (runs_from P g a xs) \<noteq> [] \<and> hd (hd (runs_from P g a xs)) = hd g"
  by (induction xs arbitrary: g a) auto

lemma runs_from_ne: "runs_from P g a xs \<noteq> []"
  by (induction xs arbitrary: g a) auto

lemma runs_from_cuts:
  "g \<noteq> [] \<Longrightarrow> last g = a \<Longrightarrow>
     successively (\<lambda>h k. \<not> P (last h) (hd k)) (runs_from P g a xs)"
proof (induction xs arbitrary: g a)
  case Nil
  then show ?case by simp
next
  case (Cons x xs)
  show ?case
  proof (cases "P a x")
    case True
    with Cons.IH[of "g @ [x]" x] show ?thesis by simp
  next
    case False
    have ne: "runs_from P [x] x xs \<noteq> []" by (rule runs_from_ne)
    have hd: "hd (hd (runs_from P [x] x xs)) = x" using runs_from_hd[of "[x]" P x xs] by simp
    have "successively (\<lambda>h k. \<not> P (last h) (hd k)) (runs_from P [x] x xs)"
      using Cons.IH[of "[x]" x] by simp
    then show ?thesis
      using False ne hd Cons.prems
      by (cases "runs_from P [x] x xs") (auto simp: successively_Cons)
  qed
qed

lemma runs_cuts: "successively (\<lambda>h k. \<not> P (last h) (hd k)) (runs P xs)"
  by (cases xs) (auto intro: runs_from_cuts)

lemma basic_inv_new: "basic_inv (new_merged m)"
  by (simp add: basic_inv_def new_merged_def)

lemma basic_inv_extend: "basic_inv r \<Longrightarrow> basic_inv (extend_merged r m)"
  by (simp add: basic_inv_def extend_merged_def)

lemma merge_step_basic_inv:
  assumes "\<forall>r \<in> set merged. basic_inv r"
  shows "\<forall>r \<in> set (merge_step tm merged m). basic_inv r"
proof (cases "merged = []")
  case True
  then show ?thesis by (simp add: merge_step_def basic_inv_new)
next
  case False
  then have l: "last merged \<in> set merged" by simp
  have b: "\<forall>r \<in> set (butlast merged). basic_inv r"
    using assms by (meson in_set_butlastD)
  show ?thesis
    using False assms l b
    by (auto simp: merge_step_def basic_inv_new basic_inv_extend)
qed

lemma scan_basic_inv:
  "\<forall>r \<in> set merged. basic_inv r \<Longrightarrow> \<forall>r \<in> set (foldl (merge_step tm) merged xs). basic_inv r"
proof (induction xs arbitrary: merged)
  case Nil
  then show ?case by simp
next
  case (Cons x xs)
  from Cons.IH[OF merge_step_basic_inv[OF Cons.prems]] show ?case by simp
qed

lemma sorted_wrt_concat_elem:
  "sorted_wrt R (concat gs) \<Longrightarrow> g \<in> set gs \<Longrightarrow> sorted_wrt R g"
  by (induction gs) (auto simp: sorted_wrt_append)

lemma sort_by_start_sorted:
  "sorted_wrt (\<lambda>a b. tm (FechaInicio a) \<le> tm (FechaInicio b)) (sort_by_start tm ms)"
proof -
  have "sorted (map (\<lambda>m. tm (FechaInicio m)) (sort_key (\<lambda>m. tm (FechaInicio m)) ms))"
    by (rule sorted_sort_key)
  then show ?thesis by (simp add: sort_by_start_def sorted_map)
qed

lemma sorted_wrt_take: "sorted_wrt R xs \<Longrightarrow> sorted_wrt R (take n xs)"
  by (metis append_take_drop_id sorted_wrt_append)

lemma scan_sorted:
  assumes "sorted_wrt (\<lambda>a b. tm (FechaInicio a) \<le> tm (FechaInicio b)) xs"
    and "r \<in> set (foldl (merge_step tm) [] xs)"
  shows "sorted_wrt (\<lambda>a b. tm (FechaInicio a) \<le> tm (FechaInicio b)) (originalMilitancias r)"
proof -
  have "originalMilitancias r \<in> set (runs (sequential_pair tm) xs)"
    using assms(2) scan_runs[of tm xs] by (metis image_eqI set_map)
  moreover have "sorted_wrt (\<lambda>a b. tm (FechaInicio a) \<le> tm (FechaInicio b)) (concat (runs (sequential_pair tm) xs))"
    using assms(1) by (simp add: concat_runs)
  ultimately show ?thesis by (rule sorted_wrt_concat_elem[rotated])
qed

lemma scan_record_inv:
  assumes "sorted_wrt (\<lambda>a b. tm (FechaInicio a) \<le> tm (FechaInicio b)) xs"
    and "r \<in> set (foldl (merge_step tm) [] xs)"
  shows "periodCount r \<ge> 1 \<and> periodCount r = length (originalMilitancias r)
     \<and> sorted_wrt (\<lambda>a b. tm (FechaInicio a) \<le> tm (FechaInicio b)) (originalMilitancias r)
     \<and> merged_FechaInicio r = FechaInicio (hd (originalMilitancias r))
     \<and> merged_FechaTermino r = FechaTermino (last (originalMilitancias r))"
proof -
  have "basic_inv r"
    using scan_basic_inv[of "[]" tm xs] assms(2) by simp
  moreover have "sorted_wrt (\<lambda>a b. tm (FechaInicio a) \<le> tm (FechaInicio b)) (originalMilitancias r)"
    using assms by (rule scan_sorted)
  ultimately show ?thesis
    by (cases "originalMilitancias r") (simp_all add: basic_inv_def)
qed

section \<open>Lemmas: grouping by party\<close>

lemma first_seen_snoc:
  "first_seen (xs @ [x]) = (if x \<in> set xs then first_seen xs else first_seen xs @ [x])"
  by (simp add: first_seen_def)

lemma set_first_seen: "set (first_seen xs) = set xs"
  by (simp add: first_seen_def)

lemma distinct_first_seen: "distinct (first_seen xs)"
  by (simp add: first_seen_def)

lemma map_of_None_iff: "map_of acc k = None \<longleftrightarrow> k \<notin> set (map fst acc)"
  by (simp add: map_of_eq_None_iff)

lemma map_fst_increment_count: "map fst (increment_count acc k) = map fst acc"
  by (induction acc) (auto simp: increment_count_def split: prod.splits)

lemma increment_count_append:
  "increment_count (xs @ ys) k = increment_count xs k @ increment_count ys k"
  by (simp add: increment_count_def)

lemma js_get_own: "map_of acc k = Some p \<Longrightarrow> js_get w acc k = Own p"
  by (simp add: js_get_def)

lemma js_get_member: "map_of acc k = None \<Longrightarrow> inherited k \<Longrightarrow> js_get w acc k = Member k"
  by (simp add: js_get_def)

lemma js_get_falsy: "map_of acc k = None \<Longrightarrow> \<not> inherited k \<Longrightarrow> \<not> truthy (js_get w acc k)"
  by (simp add: js_get_def)

lemma group_step_counted:
  assumes "list_all (\<lambda>k. \<not> inherited k) (map fst acc)"
  shows "fst (group_step tm nows (acc, w) leg) = counted_step tm (nows (clock_reads w)) acc leg"
    and "clock_reads (snd (group_step tm nows (acc, w) leg)) = Suc (clock_reads w)"
proof -
  let ?now = "nows (clock_reads w)"
  let ?cur = "getCurrentMilitancia tm ?now (Diputado leg)"
  let ?k = "current_partyId ?cur"
  let ?w1 = "w\<lparr>clock_reads := clock_reads w + 1\<rparr>"
  show "fst (group_step tm nows (acc, w) leg) = counted_step tm ?now acc leg"
  proof (cases "inherited ?k")
    case True
    then have "?k \<notin> set (map fst acc)" using assms by (auto simp: list_all_iff)
    then have none: "map_of acc ?k = None" by (simp add: map_of_None_iff)
    have "js_get ?w1 acc ?k = Member ?k" using none True by (rule js_get_member)
    then show ?thesis using True by (simp add: group_step_def counted_step_def Let_def)
  next
    case False
    show ?thesis
    proof (cases "map_of acc ?k")
      case None
      have f: "\<not> truthy (js_get ?w1 acc ?k)" using None False by (rule js_get_falsy)
      have "js_get ?w1 (acc @ [(?k, new_group ?cur ?k)]) ?k = Own (new_group ?cur ?k)"
        by (rule js_get_own) (simp add: map_add_def None)
      then show ?thesis using f None False
        by (simp add: group_step_def counted_step_def Let_def)
    next
      case (Some p)
      have "js_get ?w1 acc ?k = Own p" using Some by (rule js_get_own)
      then show ?thesis using Some False
        by (simp add: group_step_def counted_step_def Let_def)
    qed
  qed
  show "clock_reads (snd (group_step tm nows (acc, w) leg)) = Suc (clock_reads w)"
    by (simp add: group_step_def Let_def split: js_value.splits)
qed

lemma counted_step_keys:
  assumes "list_all (\<lambda>k. \<not> inherited k) (map fst acc)"
  shows "list_all (\<lambda>k. \<not> inherited k) (map fst (counted_step tm now acc leg))"
  using assms by (simp add: counted_step_def Let_def map_fst_increment_count)

lemma group_step_keys:
  assumes "list_all (\<lambda>k. \<not> inherited k) (map fst acc)"
  shows "list_all (\<lambda>k. \<not> inherited k) (map fst (fst (group_step tm nows (acc, w) leg)))"
  using counted_step_keys[OF assms] group_step_counted(1)[OF assms] by simp

lemma counted_step_cong:
  "getCurrentMilitancia tm now (Diputado leg) = getCurrentMilitancia tm now' (Diputado leg)
     \<Longrightarrow> counted_step tm now acc leg = counted_step tm now' acc leg"
  by (simp add: counted_step_def)

lemma run_agrees:
  "list_all (\<lambda>k. \<not> inherited k) (map fst acc)
   \<Longrightarrow> \<forall>i < length legs. getCurrentMilitancia tm (nows (clock_reads w + i)) (Diputado (legs ! i))
          = getCurrentMilitancia tm (nows' (clock_reads w' + i)) (Diputado (legs ! i))
   \<Longrightarrow> fst (foldl (group_step tm nows) (acc, w) legs) = fst (foldl (group_step tm nows') (acc, w') legs)"
proof (induction legs arbitrary: acc w w')
  case Nil
  show ?case by simp
next
  case (Cons leg legs)
  obtain a1 w1 where s1: "group_step tm nows (acc, w) leg = (a1, w1)" by (cases "group_step tm nows (acc, w) leg")
  obtain a2 w2 where s2: "group_step tm nows' (acc, w') leg = (a2, w2)" by (cases "group_step tm nows' (acc, w') leg")
  have "0 < length (leg # legs)" by simp
  then have "getCurrentMilitancia tm (nows (clock_reads w + 0)) (Diputado ((leg # legs) ! 0))
          = getCurrentMilitancia tm (nows' (clock_reads w' + 0)) (Diputado ((leg # legs) ! 0))"
    using Cons.prems(2) by blast
  then have now: "getCurrentMilitancia tm (nows (clock_reads w)) (Diputado leg)
          = getCurrentMilitancia tm (nows' (clock_reads w')) (Diputado leg)"
    by simp
  have "a1 = counted_step tm (nows (clock_reads w)) acc leg"
    using group_step_counted(1)[OF Cons.prems(1), of tm nows w leg] s1 by simp
  moreover have "a2 = counted_step tm (nows' (clock_reads w')) acc leg"
    using group_step_counted(1)[OF Cons.prems(1), of tm nows' w' leg] s2 by simp
  ultimately have a: "a1 = a2"
    using counted_step_cong[OF now] by simp
  have r1: "clock_reads w1 = Suc (clock_reads w)"
    using group_step_counted(2)[OF Cons.prems(1), of tm nows w leg] s1 by simp
  have r2: "clock_reads w2 = Suc (clock_reads w')"
    using group_step_counted(2)[OF Cons.prems(1), of tm nows' w' leg] s2 by simp
  have keys: "list_all (\<lambda>k. \<not> inherited k) (map fst a1)"
    using group_step_keys[OF Cons.prems(1), of tm nows w leg] s1 by simp
  have rest: "\<forall>i < length legs. getCurrentMilitancia tm (nows (clock_reads w1 + i)) (Diputado (legs ! i))
          = getCurrentMilitancia tm (nows' (clock_reads w2 + i)) (Diputado (legs ! i))"
  proof (intro allI impI)
    fix i assume "i < length legs"
    then have "Suc i < length (leg # legs)" by simp
    then have "getCurrentMilitancia tm (nows (clock_reads w + Suc i)) (Diputado ((leg # legs) ! Suc i))
          = getCurrentMilitancia tm (nows' (clock_reads w' + Suc i)) (Diputado ((leg # legs) ! Suc i))"
      using Cons.prems(2) by blast
    then show "getCurrentMilitancia tm (nows (clock_reads w1 + i)) (Diputado (legs ! i))
          = getCurrentMilitancia tm (nows' (clock_reads w2 + i)) (Diputado (legs ! i))"
      by (simp add: r1 r2)
  qed
  from Cons.IH[OF keys rest] show ?case by (simp add: s1 s2 a)
qed

lemma run_constant:
  "list_all (\<lambda>k. \<not> inherited k) (map fst acc)
   \<Longrightarrow> fst (foldl (group_step tm (\<lambda>i. now)) (acc, w) legs) = foldl (counted_step tm now) acc legs"
proof (induction legs arbitrary: acc w)
  case Nil
  show ?case by simp
next
  case (Cons leg legs)
  obtain a1 w1 where s1: "group_step tm (\<lambda>i. now) (acc, w) leg = (a1, w1)"
    by (cases "group_step tm (\<lambda>i. now) (acc, w) leg")
  have a: "a1 = counted_step tm now acc leg"
    using group_step_counted(1)[OF Cons.prems, of tm "\<lambda>i. now" w leg] s1 by simp
  have keys: "list_all (\<lambda>k. \<not> inherited k) (map fst a1)"
    unfolding a using Cons.prems by (rule counted_step_keys)
  from Cons.IH[OF keys, of w1] show ?case by (simp add: s1 a)
qed

lemma run_clock_reads:
  "list_all (\<lambda>k. \<not> inherited k) (map fst acc)
   \<Longrightarrow> clock_reads (snd (foldl (group_step tm nows) (acc, w) legs)) = clock_reads w + length legs"
proof (induction legs arbitrary: acc w)
  case Nil
  show ?case by simp
next
  case (Cons leg legs)
  obtain a1 w1 where s1: "group_step tm nows (acc, w) leg = (a1, w1)" by (cases "group_step tm nows (acc, w) leg")
  have r1: "clock_reads w1 = Suc (clock_reads w)"
    using group_step_counted(2)[OF Cons.prems, of tm nows w leg] s1 by simp
  have keys: "list_all (\<lambda>k. \<not> inherited k) (map fst a1)"
    using group_step_keys[OF Cons.prems, of tm nows w leg] s1 by simp
  from Cons.IH[OF keys, of w1] show ?case by (simp add: s1 r1)
qed

lemma partyGroups_run_groups:
  "fst (partyGroups_run tm (\<lambda>i. now) w legs) = partyGroups tm now legs"
  unfolding partyGroups_def partyGroups_run_def by (rule run_agrees) simp_all

lemma partyGroups_counted: "partyGroups tm now legs = foldl (counted_step tm now) [] legs"
  unfolding partyGroups_def partyGroups_run_def by (rule run_constant) simp

lemma counted_step_inv:
  assumes "groups_inv ids acc"
  shows "groups_inv (ids @ [partyId_of tm now leg]) (counted_step tm now acc leg)"
proof -
  let ?k = "partyId_of tm now leg"
  let ?cur = "getCurrentMilitancia tm now (Diputado leg)"
  let ?own = "filter (\<lambda>k. \<not> inherited k) ids"
  have keys: "map fst acc = first_seen ?own" and ok: "list_all (entry_ok ids) acc"
    using assms by (simp_all add: groups_inv_def)
  have k: "current_partyId ?cur = ?k" by (simp add: partyId_of_def)
  show ?thesis
  proof (cases "inherited ?k")
    case True
    have step: "counted_step tm now acc leg = acc"
      using True by (simp add: counted_step_def Let_def k)
    have "?k \<notin> set (map fst acc)"
      using True by (auto simp: keys set_first_seen)
    then have "\<forall>e \<in> set acc. fst e \<noteq> ?k" by force
    then have "\<forall>e \<in> set acc. entry_ok (ids @ [?k]) e"
      using ok by (auto simp: list_all_iff entry_ok_def)
    then show ?thesis
      using True keys by (simp add: groups_inv_def step list_all_iff)
  next
    case False
    have none: "map_of acc ?k = None \<longleftrightarrow> ?k \<notin> set ?own"
      by (simp only: map_of_None_iff keys set_first_seen)
    have bump: "\<And>e. entry_ok ids e \<Longrightarrow>
        entry_ok (ids @ [?k]) (case e of (k, p) \<Rightarrow> if k = ?k then (k, p\<lparr>partyCount := partyCount p + 1\<rparr>) else (k, p))"
      by (auto simp: entry_ok_def split: prod.splits)
    have old: "\<forall>e \<in> set acc. entry_ok (ids @ [?k])
        (case e of (k, p) \<Rightarrow> if k = ?k then (k, p\<lparr>partyCount := partyCount p + 1\<rparr>) else (k, p))"
      using ok bump by (simp add: list_all_iff)
    show ?thesis
    proof (cases "?k \<in> set ?own")
      case True
      then obtain p where "map_of acc ?k = Some p" using none by auto
      then have step: "counted_step tm now acc leg = increment_count acc ?k"
        using False by (simp add: counted_step_def Let_def k)
      show ?thesis
        unfolding groups_inv_def step map_fst_increment_count
        using True False keys old
        by (simp add: first_seen_snoc list_all_iff increment_count_def)
    next
      case notin: False
      let ?new = "(?k, new_group ?cur ?k)"
      have step: "counted_step tm now acc leg = increment_count (acc @ [?new]) ?k"
        using False notin none by (simp add: counted_step_def Let_def k)
      have "?k \<notin> set ids" using notin False by simp
      then have newok: "entry_ok ids ?new"
        by (simp add: entry_ok_def new_group_def count_list_0_iff)
      have new1: "entry_ok (ids @ [?k]) (?k, (snd ?new)\<lparr>partyCount := partyCount (snd ?new) + 1\<rparr>)"
        using bump[OF newok] by simp
      show ?thesis
        unfolding groups_inv_def step map_fst_increment_count
        using notin False keys old new1
        by (simp add: first_seen_snoc list_all_iff increment_count_def del: count_list_append)
    qed
  qed
qed

lemma partyGroups_snoc:
  "partyGroups tm now (legs @ [leg]) = counted_step tm now (partyGroups tm now legs) leg"
  by (simp add: partyGroups_counted)

lemma partyGroups_inv: "groups_inv (map (partyId_of tm now) legs) (partyGroups tm now legs)"
proof (induction legs rule: rev_induct)
  case Nil
  show ?case by (simp add: partyGroups_counted groups_inv_def first_seen_def)
next
  case (snoc leg legs)
  from counted_step_inv[OF snoc.IH, of tm now leg] show ?case
    by (simp add: partyGroups_snoc)
qed

lemma partyGroups_keys:
  "map fst (partyGroups tm now legs) = first_seen (filter (\<lambda>k. \<not> inherited k) (map (partyId_of tm now) legs))"
  using partyGroups_inv[of tm now legs] by (simp add: groups_inv_def)

lemma partyGroups_entry:
  "e \<in> set (partyGroups tm now legs) \<Longrightarrow> entry_ok (map (partyId_of tm now) legs) e"
  using partyGroups_inv[of tm now legs] by (simp add: groups_inv_def list_all_iff)

lemma partyGroups_distinct: "distinct (map fst (partyGroups tm now legs))"
  by (simp add: partyGroups_keys distinct_first_seen)

lemma partyGroups_count_pos:
  assumes "e \<in> set (partyGroups tm now legs)"
  shows "1 \<le> partyCount (snd e)"
proof -
  have "fst e \<in> set (map fst (partyGroups tm now legs))" using assms by simp
  then have "fst e \<in> set (filter (\<lambda>k. \<not> inherited k) (map (partyId_of tm now) legs))"
    by (simp only: partyGroups_keys set_first_seen)
  then have "fst e \<in> set (map (partyId_of tm now) legs)" by simp
  then have "count_list (map (partyId_of tm now) legs) (fst e) \<noteq> 0"
    by (simp only: count_list_0_iff not_not)
  then have "count_list (map (partyId_of tm now) legs) (fst e) > 0"
    by simp
  then show ?thesis using partyGroups_entry[OF assms] by (simp add: entry_ok_def)
qed

lemma sum_list_indicator:
  "distinct ks \<Longrightarrow> x \<in> set ks \<Longrightarrow> sum_list (map (\<lambda>k. if x = k then 1 else 0) ks) = (1::nat)"
proof (induction ks)
  case Nil
  then show ?case by simp
next
  case (Cons k ks)
  show ?case
  proof (cases "x = k")
    case True
    then have "x \<notin> set ks" using Cons.prems by simp
    then have "sum_list (map (\<lambda>k. if x = k then 1 else 0) ks) = (0::nat)"
      by (induction ks) auto
    with True show ?thesis by simp
  next
    case False
    with Cons show ?thesis by simp
  qed
qed

lemma sum_count_list_distinct:
  "distinct ks \<Longrightarrow> set xs \<subseteq> set ks \<Longrightarrow> sum_list (map (count_list xs) ks) = length xs"
proof (induction xs)
  case Nil
  then show ?case by simp
next
  case (Cons x xs)
  have "sum_list (map (count_list (x # xs)) ks) = sum_list (map (\<lambda>k. count_list xs k + (if x = k then 1 else 0)) ks)"
    by (intro arg_cong[where f = sum_list] map_cong) auto
  also have "\<dots> = sum_list (map (count_list xs) ks) + sum_list (map (\<lambda>k. if x = k then 1 else 0) ks)"
    by (simp add: sum_list_addf)
  also have "sum_list (map (\<lambda>k. if x = k then 1 else 0) ks) = (1::nat)"
    using Cons.prems by (simp add: sum_list_indicator)
  finally show ?case using Cons by simp
qed

lemma count_list_filter_keep: "P k \<Longrightarrow> count_list (filter P xs) k = count_list xs k"
  by (induction xs) auto

lemma partyGroups_total:
  "sum_list (map (\<lambda>e. partyCount (snd e)) (partyGroups tm now legs))
     = length (filter (grouped tm now) legs)"
proof -
  let ?ids = "map (partyId_of tm now) legs"
  let ?own = "filter (\<lambda>k. \<not> inherited k) ?ids"
  have "map (\<lambda>e. partyCount (snd e)) (partyGroups tm now legs)
        = map (\<lambda>e. count_list ?ids (fst e)) (partyGroups tm now legs)"
    using partyGroups_entry[of _ tm now legs] by (intro map_cong) (auto simp: entry_ok_def)
  also have "\<dots> = map (count_list ?ids) (map fst (partyGroups tm now legs))"
    by simp
  also have "\<dots> = map (count_list ?ids) (first_seen ?own)"
    by (simp only: partyGroups_keys)
  also have "\<dots> = map (count_list ?own) (first_seen ?own)"
    by (intro map_cong refl) (simp add: set_first_seen count_list_filter_keep)
  finally have "sum_list (map (\<lambda>e. partyCount (snd e)) (partyGroups tm now legs))
       = sum_list (map (count_list ?own) (first_seen ?own))"
    by simp
  also have "\<dots> = length ?own"
    by (rule sum_count_list_distinct) (simp_all add: distinct_first_seen set_first_seen)
  also have "\<dots> = length (filter (\<lambda>l. \<not> inherited (partyId_of tm now l)) legs)"
    by (simp add: filter_map comp_def)
  also have "filter (\<lambda>l. \<not> inherited (partyId_of tm now l)) legs = filter (grouped tm now) legs"
    by (rule filter_cong) (simp_all add: grouped_def)
  finally show ?thesis .
qed

lemma partyGroups_total_le:
  "sum_list (map (\<lambda>e. partyCount (snd e)) (partyGroups tm now legs)) \<le> length legs"
  by (simp add: partyGroups_total)

lemma partyGroups_empty_iff:
  "partyGroups tm now legs = [] \<longleftrightarrow> \<not> (\<exists>l \<in> set legs. grouped tm now l)"
proof -
  have "partyGroups tm now legs = [] \<longleftrightarrow> map fst (partyGroups tm now legs) = []" by simp
  also have "\<dots> \<longleftrightarrow> set (first_seen (filter (\<lambda>k. \<not> inherited k) (map (partyId_of tm now) legs))) = {}"
    by (simp only: partyGroups_keys set_empty)
  also have "\<dots> \<longleftrightarrow> \<not> (\<exists>l \<in> set legs. grouped tm now l)"
    by (auto simp: set_first_seen grouped_def filter_empty_conv)
  finally show ?thesis .
qed

section \<open>Lemmas: party order and the assignment loop\<close>

lemma mset_sort_by_count_desc: "mset (sort_by_count_desc es) = mset es"
  by (simp add: sort_by_count_desc_def)

lemma mset_three_filters:
  "mset (filter (\<lambda>(k, p). alignment p = Left) gs) + mset (filter (\<lambda>(k, p). alignment p = Center) gs)
     + mset (filter (\<lambda>(k, p). alignment p = Right) gs) = mset gs"
proof (induction gs)
  case Nil
  then show ?case by simp
next
  case (Cons g gs)
  obtain k p where g: "g = (k, p)" by (cases g)
  show ?case using Cons g by (cases "alignment p") simp_all
qed

lemma mset_object_entries: "mset (object_entries gs) = mset gs"
proof -
  have "mset (filter (\<lambda>(k, v). is_array_index k) gs) + mset (filter (\<lambda>(k, v). \<not> is_array_index k) gs) = mset gs"
    by (induction gs) (auto split: prod.splits)
  then show ?thesis by (simp add: object_entries_def)
qed

lemma mset_sortedParties: "mset (sortedParties gs) = mset gs"
  using mset_three_filters[of "object_entries gs"]
  by (simp add: sortedParties_def leftParties_def centerParties_def rightParties_def
      mset_sort_by_count_desc add.assoc mset_object_entries)

lemma set_sortedParties: "set (sortedParties gs) = set gs"
  using mset_sortedParties[of gs] by (metis set_mset_mset)

lemma length_sortedParties: "length (sortedParties gs) = length gs"
  using mset_sortedParties[of gs] by (metis size_mset)

lemma sum_sortedParties:
  "sum_list (map f (sortedParties gs)) = sum_list (map (f :: string \<times> party \<Rightarrow> nat) gs)"
proof -
  have "sum_mset (image_mset f (mset (sortedParties gs))) = sum_mset (image_mset f (mset gs))"
    by (simp only: mset_sortedParties)
  then show ?thesis by (simp only: mset_map[symmetric] sum_mset_sum_list)
qed

lemma blocks_Cons: "blocks (e # es) = replicate (partyCount (snd e)) (snd e) @ blocks es"
  by (simp add: blocks_def split: prod.splits)

lemma length_blocks: "length (blocks parties) = seats_before parties (length parties)"
  by (induction parties) (simp_all add: blocks_Cons seats_before_def, simp add: blocks_def)

lemma seats_before_Suc:
  "j < length parties \<Longrightarrow> seats_before parties (Suc j) = seats_before parties j + partyCount (snd (parties ! j))"
  by (simp add: seats_before_def take_Suc_conv_app_nth)

lemma blocks_nth:
  "j < length parties \<Longrightarrow> seats_before parties j \<le> i \<Longrightarrow> i < seats_before parties (Suc j)
     \<Longrightarrow> blocks parties ! i = snd (parties ! j)"
proof (induction parties arbitrary: i j)
  case Nil
  then show ?case by simp
next
  case (Cons e es)
  show ?case
  proof (cases j)
    case 0
    with Cons.prems show ?thesis
      by (simp add: blocks_Cons seats_before_def nth_append)
  next
    case (Suc j')
    have a: "j' < length es" using Cons.prems Suc by simp
    have b: "seats_before es j' \<le> i - partyCount (snd e)"
      using Cons.prems Suc by (simp add: seats_before_def)
    have c: "i - partyCount (snd e) < seats_before es (Suc j')"
      using Cons.prems Suc by (simp add: seats_before_def)
    have d: "partyCount (snd e) \<le> i" using Cons.prems Suc by (simp add: seats_before_def)
    from Cons.IH[OF a b c] d Suc show ?thesis
      by (simp add: blocks_Cons nth_append)
  qed
qed

lemma map2_take_Suc:
  "i < length xs \<Longrightarrow> i < length ys \<Longrightarrow>
     map2 f (take (Suc i) xs) (take (Suc i) ys) = map2 f (take i xs) (take i ys) @ [f (xs ! i) (ys ! i)]"
  by (simp add: take_Suc_conv_app_nth)

lemma seats_before_mono: "j \<le> k \<Longrightarrow> seats_before parties j \<le> seats_before parties k"
proof -
  assume "j \<le> k"
  then obtain d where k: "k = j + d" using le_Suc_ex by blast
  have "take (j + d) parties = take j parties @ take d (drop j parties)"
    by (simp add: take_add)
  then show ?thesis by (simp add: seats_before_def k)
qed

lemma assign_step_inv:
  assumes inv: "assign_inv parties positions i st"
    and pos: "list_all (\<lambda>e. 1 \<le> partyCount (snd e)) parties"
    and i: "i < seats_before parties (length parties)"
    and len: "seats_before parties (length parties) \<le> length positions"
  shows "\<exists>st'. assign_step parties positions st i = Inr st' \<and> assign_inv parties positions (Suc i) st'"
proof -
  let ?j = "currentPartyIndex st"
  let ?d = "snd (parties ! ?j)"
  have j: "?j < length parties" and cur: "currentPartyData st = Some ?d"
    and sum: "seats_before parties ?j + currentPartySeats st = i"
    and le: "currentPartySeats st \<le> partyCount ?d"
    and ss: "seats st = map2 mk_seat (take i positions) (take i (blocks parties))"
    using inv by (simp_all add: assign_inv_def)
  have ip: "i < length positions" using i len by simp
  have ib: "i < length (blocks parties)" using i by (simp add: length_blocks)
  show ?thesis
  proof (cases "currentPartySeats st \<ge> partyCount ?d")
    case True
    then have full: "currentPartySeats st = partyCount ?d" using le by simp
    have iSuc: "i = seats_before parties (Suc ?j)"
      using sum full j by (simp add: seats_before_Suc)
    have j1: "Suc ?j < length parties"
    proof (rule ccontr)
      assume "\<not> Suc ?j < length parties"
      then have "Suc ?j = length parties" using j by simp
      then show False using iSuc i by simp
    qed
    let ?d1 = "snd (parties ! Suc ?j)"
    have c1: "1 \<le> partyCount ?d1"
      using pos j1 by (simp add: list_all_length)
    have nth: "blocks parties ! i = ?d1"
      by (rule blocks_nth[OF j1]) (use iSuc c1 j1 in \<open>simp_all add: seats_before_Suc\<close>)
    show ?thesis
      using True cur j1 ip ib c1 iSuc ss nth
      by (simp add: assign_step_def next_party_def push_seat_def Let_def assign_inv_def
          map2_take_Suc mk_seat_def)
  next
    case False
    have nth: "blocks parties ! i = ?d"
      by (rule blocks_nth[OF j]) (use sum False j in \<open>simp_all add: seats_before_Suc\<close>)
    show ?thesis
      using False cur j ip ib sum ss nth
      by (simp add: assign_step_def next_party_def push_seat_def Let_def assign_inv_def
          map2_take_Suc mk_seat_def)
  qed
qed

lemma assign_loop_inv:
  assumes pos: "list_all (\<lambda>e. 1 \<le> partyCount (snd e)) parties"
    and len: "seats_before parties (length parties) \<le> length positions"
  shows "assign_inv parties positions i st \<Longrightarrow> i + n \<le> seats_before parties (length parties) \<Longrightarrow>
     \<exists>st'. assign_loop parties positions [i..<i + n] st = Inr st' \<and> assign_inv parties positions (i + n) st'"
proof (induction n arbitrary: i st)
  case 0
  then show ?case by simp
next
  case (Suc n)
  have "i < seats_before parties (length parties)" using Suc.prems by simp
  from assign_step_inv[OF Suc.prems(1) pos this len]
  obtain st1 where s1: "assign_step parties positions st i = Inr st1"
    and i1: "assign_inv parties positions (Suc i) st1" by blast
  have "Suc i + n \<le> seats_before parties (length parties)" using Suc.prems by simp
  from Suc.IH[OF i1 this]
  obtain st' where "assign_loop parties positions [Suc i..<Suc i + n] st1 = Inr st'"
    and "assign_inv parties positions (Suc i + n) st'" by blast
  moreover have "[i..<i + Suc n] = i # [Suc i..<Suc i + n]"
    by (simp add: upt_conv_Cons)
  ultimately show ?case using s1 by simp
qed

lemma assign_loop_total:
  assumes pos: "list_all (\<lambda>e. 1 \<le> partyCount (snd e)) parties"
    and len: "seats_before parties (length parties) \<le> length positions"
    and n: "n = seats_before parties (length parties)"
  shows "\<exists>st. assign_loop parties positions [0..<n] (initial_state groups parties) = Inr st
      \<and> seats st = map2 mk_seat (take n positions) (blocks parties)"
proof (cases parties)
  case Nil
  then show ?thesis using n by (simp add: seats_before_def blocks_def initial_state_def)
next
  case (Cons e es)
  have "assign_inv parties positions 0 (initial_state groups parties)"
    using Cons by (simp add: assign_inv_def initial_state_def seats_before_def split: prod.splits)
  from assign_loop_inv[OF pos len this, of n] n
  obtain st where "assign_loop parties positions [0..<n] (initial_state groups parties) = Inr st"
    and "assign_inv parties positions n st" by auto
  then show ?thesis using n by (auto simp: assign_inv_def length_blocks)
qed

lemma assign_loop_append:
  "assign_loop parties positions (xs @ ys) st =
     (case assign_loop parties positions xs st of
        Inl e \<Rightarrow> Inl e
      | Inr st' \<Rightarrow> assign_loop parties positions ys st')"
  by (induction xs arbitrary: st) (simp_all split: sum.splits)

lemma pad_step:
  assumes inv: "pad_inv parties positions n i st"
    and i: "i < n" and len: "n \<le> length positions" and past: "length (blocks parties) \<le> i"
  shows "\<exists>st'. assign_step parties positions st i = Inr st' \<and> pad_inv parties positions n (Suc i) st'"
proof -
  let ?d = "snd (last parties)"
  let ?pad = "blocks parties @ replicate n ?d"
  have cur: "currentPartyData st = Some ?d"
    and full: "partyCount ?d \<le> currentPartySeats st"
    and idx: "length parties \<le> currentPartyIndex st + 1"
    and ss: "seats st = map2 mk_seat (take i positions) (take i ?pad)"
    using inv by (simp_all add: pad_inv_def)
  have ip: "i < length positions" using i len by simp
  have il: "i < length ?pad" using i by simp
  have "i - length (blocks parties) < n" using i by simp
  then have nth: "?pad ! i = ?d" using past by (simp add: nth_append)
  have nx: "next_party parties st = Inr (st\<lparr>currentPartyIndex := currentPartyIndex st + 1\<rparr>)"
    using cur full idx by (simp add: next_party_def Let_def)
  have seats': "map2 mk_seat (take (Suc i) positions) (take (Suc i) ?pad)
      = seats st @ [mk_seat (positions ! i) ?d]"
    using map2_take_Suc[OF ip il, of mk_seat] nth ss by simp
  show ?thesis
    using nx cur full idx ip seats'
    by (simp add: assign_step_def push_seat_def pad_inv_def mk_seat_def)
qed

lemma pad_loop:
  assumes len: "n \<le> length positions"
  shows "pad_inv parties positions n i st \<Longrightarrow> i + k \<le> n \<Longrightarrow> length (blocks parties) \<le> i \<Longrightarrow>
     \<exists>st'. assign_loop parties positions [i..<i + k] st = Inr st' \<and> pad_inv parties positions n (i + k) st'"
proof (induction k arbitrary: i st)
  case 0
  then show ?case by simp
next
  case (Suc k)
  have "i < n" using Suc.prems by simp
  from pad_step[OF Suc.prems(1) this len Suc.prems(3)]
  obtain st1 where s1: "assign_step parties positions st i = Inr st1"
    and i1: "pad_inv parties positions n (Suc i) st1" by blast
  have a: "Suc i + k \<le> n" using Suc.prems by simp
  have b: "length (blocks parties) \<le> Suc i" using Suc.prems by simp
  from Suc.IH[OF i1 a b]
  obtain st' where "assign_loop parties positions [Suc i..<Suc i + k] st1 = Inr st'"
    and "pad_inv parties positions n (Suc i + k) st'" by blast
  moreover have "[i..<i + Suc k] = i # [Suc i..<Suc i + k]"
    by (simp add: upt_conv_Cons)
  ultimately show ?case using s1 by simp
qed

lemma assign_inv_full:
  assumes inv: "assign_inv parties positions (seats_before parties (length parties)) st"
    and pos: "list_all (\<lambda>e. 1 \<le> partyCount (snd e)) parties"
  shows "pad_inv parties positions n (seats_before parties (length parties)) st"
proof -
  let ?S = "seats_before parties (length parties)"
  let ?j = "currentPartyIndex st"
  have j: "?j < length parties" and cur: "currentPartyData st = Some (snd (parties ! ?j))"
    and sum: "seats_before parties ?j + currentPartySeats st = ?S"
    and le: "currentPartySeats st \<le> partyCount (snd (parties ! ?j))"
    and ss: "seats st = map2 mk_seat (take ?S positions) (take ?S (blocks parties))"
    using inv by (simp_all add: assign_inv_def)
  have last: "Suc ?j = length parties"
  proof (rule ccontr)
    assume "Suc ?j \<noteq> length parties"
    then have j1: "Suc ?j < length parties" using j by simp
    have "1 \<le> partyCount (snd (parties ! Suc ?j))"
      using pos j1 by (simp add: list_all_length)
    then have "seats_before parties (Suc ?j) < seats_before parties (Suc (Suc ?j))"
      using j1 by (simp add: seats_before_Suc)
    also have "\<dots> \<le> ?S" using j1 by (intro seats_before_mono) simp
    finally have "seats_before parties (Suc ?j) < ?S" .
    moreover have "?S \<le> seats_before parties (Suc ?j)"
      using sum le j by (simp add: seats_before_Suc)
    ultimately show False by simp
  qed
  have ne: "parties \<noteq> []" using j by auto
  have j': "length parties - 1 = ?j" using last by arith
  have "last parties = parties ! (length parties - 1)" using ne by (rule last_conv_nth)
  then have lastp: "last parties = parties ! ?j" by (simp only: j')
  have "seats_before parties (Suc ?j) = ?S" using last by simp
  then have full: "currentPartySeats st = partyCount (snd (parties ! ?j))"
    using sum j by (simp add: seats_before_Suc)
  have "take ?S (blocks parties @ replicate n (snd (last parties))) = take ?S (blocks parties)"
    by (simp add: length_blocks)
  then show ?thesis
    using cur full last lastp ss by (simp add: pad_inv_def)
qed

lemma assign_loop_padded:
  assumes ne: "parties \<noteq> []"
    and pos: "list_all (\<lambda>e. 1 \<le> partyCount (snd e)) parties"
    and sn: "seats_before parties (length parties) \<le> n"
    and len: "n \<le> length positions"
  shows "\<exists>st. assign_loop parties positions [0..<n] (initial_state groups parties) = Inr st
      \<and> seats st = map2 mk_seat (take n positions) (padded_blocks parties n)"
proof -
  let ?S = "seats_before parties (length parties)"
  have len1: "?S \<le> length positions" using sn len by simp
  obtain e es where Cons: "parties = e # es" using ne by (cases parties) auto
  have "assign_inv parties positions 0 (initial_state groups parties)"
    using Cons by (simp add: assign_inv_def initial_state_def seats_before_def split: prod.splits)
  from assign_loop_inv[OF pos len1 this, of ?S]
  obtain st1 where l1: "assign_loop parties positions [0..<?S] (initial_state groups parties) = Inr st1"
    and i1: "assign_inv parties positions ?S st1" by auto
  have p1: "pad_inv parties positions n ?S st1" using i1 pos by (rule assign_inv_full)
  have a: "?S + (n - ?S) \<le> n" using sn by simp
  have b: "length (blocks parties) \<le> ?S" by (simp add: length_blocks)
  from pad_loop[OF len p1 a b]
  obtain st where l2: "assign_loop parties positions [?S..<?S + (n - ?S)] st1 = Inr st"
    and p2: "pad_inv parties positions n (?S + (n - ?S)) st" by blast
  have n: "?S + (n - ?S) = n" using sn by simp
  have "[0..<n] = [0..<?S] @ [?S..<n]"
    using sn by (metis le0 upt_add_eq_append n)
  then have "assign_loop parties positions [0..<n] (initial_state groups parties) = Inr st"
    using l1 l2 n by (simp add: assign_loop_append)
  moreover have "seats st = map2 mk_seat (take n positions) (padded_blocks parties n)"
    using p2 n by (simp add: pad_inv_def padded_blocks_def)
  ultimately show ?thesis by blast
qed

lemma padded_blocks_exact:
  "seats_before parties (length parties) = n \<Longrightarrow> padded_blocks parties n = blocks parties"
  by (simp add: padded_blocks_def length_blocks)

lemma length_padded_blocks: "length (padded_blocks parties n) = n"
  by (simp add: padded_blocks_def)

lemma assign_loop_undefined:
  "assign_loop [] positions [0..<Suc n] (initial_state [] []) = Inl TypeError"
  by (simp add: upt_conv_Cons assign_step_def next_party_def initial_state_def del: upt_Suc)

section \<open>Lemmas: positions and the layout\<close>

lemma rows_upt: "[0..<rows] = [0, 1, 2, 3, 4]"
  by (simp add: rows_def upt_rec)

lemma seatsPerRowArray_eq: "seatsPerRowArray n = [20, 28, 36, 44, int n - 128]"
  by (simp add: seatsPerRowArray_def rows_upt baseSeatsPerRow_def Let_def) (simp add: rows_def)

lemma length_row_positions: "length (row_positions d r k) = nat k"
  by (simp add: row_positions_def)

lemma length_allPositions:
  "length (allPositions d (seatsPerRowArray n)) = 128 + nat (int n - 128)"
  by (simp add: allPositions_def rows_upt seatsPerRowArray_eq length_row_positions)

lemma allPositions_enough: "n \<le> length (allPositions d (seatsPerRowArray n))"
  by (simp add: length_allPositions)

lemma seat_position_angle:
  "pos_angle (seat_position d r k s) = None \<longleftrightarrow> k = 1"
  by (simp add: seat_position_def js_div_def Let_def)

lemma row_positions_ok: "k \<noteq> 1 \<Longrightarrow> list_all (\<lambda>p. pos_angle p \<noteq> None) (row_positions d r k)"
  by (simp add: row_positions_def list_all_iff seat_position_angle del: not_None_eq)

lemma allPositions_ok:
  "n \<noteq> 129 \<Longrightarrow> list_all (\<lambda>p. pos_angle p \<noteq> None) (allPositions d (seatsPerRowArray n))"
  by (simp add: allPositions_def rows_upt seatsPerRowArray_eq row_positions_ok del: not_None_eq)

lemma row_positions_single:
  "row_positions d r 1 = [\<lparr> pos_x = None, pos_y = None, pos_angle = None \<rparr>]"
  by (simp add: row_positions_def seat_position_def js_div_def Let_def)

lemma mset_sort_positions: "reorders engine \<Longrightarrow> mset (sort_positions engine ps) = mset ps"
  by (simp add: sort_positions_def reorders_def)

lemma length_sort_positions: "reorders engine \<Longrightarrow> length (sort_positions engine ps) = length ps"
  using mset_sort_positions[of engine ps] by (metis size_mset)

lemma sorted_sort_positions:
  assumes "list_all (\<lambda>p. pos_angle p \<noteq> None) ps"
  shows "sorted_wrt (\<lambda>a b. the (pos_angle a) \<ge> the (pos_angle b)) (sort_positions engine ps)"
proof -
  have "sorted (map (\<lambda>p. - the (pos_angle p)) (sort_key (\<lambda>p. - the (pos_angle p)) ps))"
    by (rule sorted_sort_key)
  then show ?thesis using assms by (simp add: sort_positions_def sorted_map)
qed

lemma layout_unfold:
  "layout engine tm now legs d =
     (let groups = partyGroups tm now legs;
          parties = sortedParties groups;
          positions = sort_positions engine (allPositions d (seatsPerRowArray (length legs)))
      in case assign_loop parties positions [0..<length legs] (initial_state groups parties) of
           Inl e \<Rightarrow> Inl e
         | Inr st \<Rightarrow> Inr \<lparr> layout_seats = seats st, layout_legend = parties \<rparr>)"
  by (simp add: layout_def layout_run_def partyGroups_def Let_def)

lemma sortedParties_counts_pos:
  "list_all (\<lambda>e. 1 \<le> partyCount (snd e)) (sortedParties (partyGroups tm now legs))"
  using partyGroups_count_pos[of _ tm now legs] by (auto simp: list_all_iff set_sortedParties)

lemma sortedParties_total:
  "seats_before (sortedParties (partyGroups tm now legs)) (length (sortedParties (partyGroups tm now legs)))
     = length (filter (grouped tm now) legs)"
  by (simp add: seats_before_def sum_sortedParties partyGroups_total)

lemma sortedParties_empty_iff:
  "sortedParties (partyGroups tm now legs) = [] \<longleftrightarrow> \<not> (\<exists>l \<in> set legs. grouped tm now l)"
proof -
  have "sortedParties (partyGroups tm now legs) = [] \<longleftrightarrow> partyGroups tm now legs = []"
    using length_sortedParties[of "partyGroups tm now legs"] by (metis length_0_conv)
  then show ?thesis by (simp only: partyGroups_empty_iff)
qed

lemma layout_eq:
  assumes "reorders engine" and "\<exists>l \<in> set legs. grouped tm now l"
  shows "layout engine tm now legs d =
     Inr \<lparr> layout_seats = map2 mk_seat
              (take (length legs) (sort_positions engine (allPositions d (seatsPerRowArray (length legs)))))
              (padded_blocks (sortedParties (partyGroups tm now legs)) (length legs)),
           layout_legend = sortedParties (partyGroups tm now legs) \<rparr>"
proof -
  let ?parties = "sortedParties (partyGroups tm now legs)"
  let ?positions = "sort_positions engine (allPositions d (seatsPerRowArray (length legs)))"
  have ne: "?parties \<noteq> []" using assms(2) by (simp add: sortedParties_empty_iff)
  have sn: "seats_before ?parties (length ?parties) \<le> length legs"
    by (simp add: sortedParties_total)
  have len: "length legs \<le> length ?positions"
    using assms(1) by (simp add: length_sort_positions allPositions_enough)
  from assign_loop_padded[OF ne sortedParties_counts_pos sn len]
  obtain st where "assign_loop ?parties ?positions [0..<length legs]
        (initial_state (partyGroups tm now legs) ?parties) = Inr st"
    and "seats st = map2 mk_seat (take (length legs) ?positions) (padded_blocks ?parties (length legs))"
    by blast
  then show ?thesis by (simp add: layout_unfold Let_def)
qed

lemma filter_all: "list_all P xs \<Longrightarrow> filter P xs = xs"
  by (induction xs) simp_all

lemma padded_blocks_all_grouped:
  assumes "list_all (grouped tm now) legs"
  shows "padded_blocks (sortedParties (partyGroups tm now legs)) (length legs)
           = blocks (sortedParties (partyGroups tm now legs))"
  by (rule padded_blocks_exact) (simp add: sortedParties_total filter_all[OF assms])

lemma length_blocks_sortedParties:
  "length (blocks (sortedParties (partyGroups tm now legs))) = length (filter (grouped tm now) legs)"
  by (simp add: length_blocks sortedParties_total)

lemma layout_empty:
  "layout engine tm now [] d = Inr \<lparr> layout_seats = [], layout_legend = [] \<rparr>"
  by (simp add: layout_unfold Let_def partyGroups_counted sortedParties_def leftParties_def
      centerParties_def rightParties_def sort_by_count_desc_def initial_state_def object_entries_def)

lemma layout_undefined:
  assumes "legs \<noteq> []" and "\<not> (\<exists>l \<in> set legs. grouped tm now l)"
  shows "layout engine tm now legs d = Inl TypeError"
proof -
  have g: "partyGroups tm now legs = []" using assms(2) by (simp add: partyGroups_empty_iff)
  have p: "sortedParties (partyGroups tm now legs) = []" using assms(2) by (simp add: sortedParties_empty_iff)
  obtain n where n: "length legs = Suc n" using assms(1) by (cases legs) auto
  have p': "sortedParties [] = []" using p by (simp only: g)
  show ?thesis
    by (simp add: layout_unfold Let_def g p' n assign_loop_undefined del: upt_Suc)
qed

section \<open>Lemmas: the second version of the component\<close>

lemma next_party_has:
  "has_party st \<Longrightarrow> \<exists>st1. next_party parties st = Inr st1 \<and> has_party st1 \<and> seats st1 = seats st"
  by (auto simp: has_party_def next_party_def Let_def)

lemma push_seat_has:
  "has_party st \<Longrightarrow> \<exists>st1. push_seat x y st = Inr st1 \<and> has_party st1
      \<and> length (seats st1) = Suc (length (seats st))"
  by (auto simp: has_party_def push_seat_def)

lemma legacy_seat_step_has:
  assumes "has_party st"
  shows "\<exists>st'. legacy_seat_step parties d row k st seat = Inr st' \<and> has_party st'
      \<and> length (seats st') = Suc (length (seats st))"
proof -
  obtain st1 where a: "next_party parties st = Inr st1" "has_party st1" "seats st1 = seats st"
    using next_party_has[OF assms] by blast
  obtain st2 where "push_seat (pos_x (legacy_position d row k seat)) (pos_y (legacy_position d row k seat)) st1 = Inr st2"
    "has_party st2" "length (seats st2) = Suc (length (seats st1))"
    using push_seat_has[OF a(2)] by blast
  then show ?thesis using a by (simp add: legacy_seat_step_def Let_def)
qed

lemma legacy_row_loop_len:
  "has_party st \<or> tot \<le> length (seats st) \<Longrightarrow> length (seats st) \<le> tot \<Longrightarrow>
     \<exists>st'. legacy_row_loop parties d tot row k xs st = Inr st'
        \<and> (has_party st' \<or> tot \<le> length (seats st'))
        \<and> length (seats st') = min tot (length (seats st) + length xs)"
proof (induction xs arbitrary: st)
  case Nil
  then show ?case by simp
next
  case (Cons x xs)
  show ?case
  proof (cases "length (seats st) < tot")
    case True
    then have "has_party st" using Cons.prems by simp
    from legacy_seat_step_has[OF this]
    obtain st1 where s: "legacy_seat_step parties d row k st x = Inr st1" "has_party st1"
      "length (seats st1) = Suc (length (seats st))" by blast
    have "length (seats st1) \<le> tot" using s True by simp
    from Cons.IH[OF _ this] s(2)
    obtain st' where "legacy_row_loop parties d tot row k xs st1 = Inr st'"
      "has_party st' \<or> tot \<le> length (seats st')"
      "length (seats st') = min tot (length (seats st1) + length xs)" by blast
    then show ?thesis using True s by simp
  next
    case False
    then show ?thesis using Cons.prems by simp
  qed
qed

lemma legacy_rows_loop_len:
  "has_party st \<or> tot \<le> length (seats st) \<Longrightarrow> length (seats st) \<le> tot \<Longrightarrow>
     \<exists>st'. legacy_rows_loop parties d tot spr rs st = Inr st'
        \<and> length (seats st') = min tot (length (seats st) + sum_list (map (\<lambda>r. nat (legacy_seatsInRow spr r)) rs))"
proof (induction rs arbitrary: st)
  case Nil
  then show ?case by simp
next
  case (Cons r rs)
  let ?k = "legacy_seatsInRow spr r"
  from legacy_row_loop_len[OF Cons.prems, of parties d r ?k "[0..<nat ?k]"]
  obtain st1 where s: "legacy_row_loop parties d tot r ?k [0..<nat ?k] st = Inr st1"
    "has_party st1 \<or> tot \<le> length (seats st1)"
    "length (seats st1) = min tot (length (seats st) + nat ?k)" by auto
  have "length (seats st1) \<le> tot" using s(3) by simp
  from Cons.IH[OF s(2) this]
  obtain st' where "legacy_rows_loop parties d tot spr rs st1 = Inr st'"
    "length (seats st') = min tot (length (seats st1) + sum_list (map (\<lambda>r. nat (legacy_seatsInRow spr r)) rs))"
    by blast
  moreover have "min tot (min tot (length (seats st) + nat ?k) + sum_list (map (\<lambda>r. nat (legacy_seatsInRow spr r)) rs))
      = min tot (length (seats st) + (nat ?k + sum_list (map (\<lambda>r. nat (legacy_seatsInRow spr r)) rs)))"
    by (simp add: min_def)
  ultimately show ?case using s by (simp add: Let_def)
qed

lemma legacy_seatsInRow_ge: "int spr \<le> legacy_seatsInRow spr r"
proof -
  have "(of_nat spr :: rat) * 1 \<le> of_nat spr * (1 + of_nat r * (2 / 10))"
    by (intro mult_left_mono) simp_all
  then have "\<lceil>(of_nat spr :: rat)\<rceil> \<le> \<lceil>(of_nat spr :: rat) * (1 + of_nat r * (2 / 10))\<rceil>"
    by (intro ceiling_mono) simp
  then show ?thesis by (simp add: legacy_seatsInRow_def)
qed

lemma legacy_seatsPerRow_ge: "n \<le> 5 * legacy_seatsPerRow n"
proof -
  let ?c = "\<lceil>(of_nat n :: rat) / 5\<rceil>"
  have "(of_nat n :: rat) / 5 \<le> of_int ?c" by (rule le_of_int_ceiling)
  then have "(of_nat n :: rat) \<le> of_int ?c * 5" by (simp only: pos_divide_le_eq[OF zero_less_numeral])
  then have "(of_int (int n) :: rat) \<le> of_int (5 * ?c)" by (simp add: mult.commute)
  then have a: "int n \<le> 5 * ?c" by (simp only: of_int_le_iff)
  then have "0 \<le> ?c" by linarith
  then have "int (nat ?c) = ?c" by simp
  with a have "int n \<le> int (5 * nat ?c)" by simp
  then have "n \<le> 5 * nat ?c" by (simp only: of_nat_le_iff)
  then show ?thesis by (simp add: legacy_seatsPerRow_def rows_def)
qed

lemma legacy_capacity:
  "n \<le> sum_list (map (\<lambda>r. nat (legacy_seatsInRow (legacy_seatsPerRow n) r)) [0..<rows])"
proof -
  have ge: "legacy_seatsPerRow n \<le> nat (legacy_seatsInRow (legacy_seatsPerRow n) r)" for r
    using legacy_seatsInRow_ge[of "legacy_seatsPerRow n" r] by linarith
  have "5 * legacy_seatsPerRow n \<le> sum_list (map (\<lambda>r. nat (legacy_seatsInRow (legacy_seatsPerRow n) r)) [0..<rows])"
    unfolding rows_upt
    using ge[of 0] ge[of 1] ge[of 2] ge[of 3] ge[of 4] by simp
  with legacy_seatsPerRow_ge[of n] show ?thesis by linarith
qed

lemma initial_has_party: "parties \<noteq> [] \<Longrightarrow> has_party (initial_state groups parties)"
  by (cases parties) (auto simp: has_party_def initial_state_def)

lemma length_legacy_parties: "length (sort_by_count_desc (object_entries gs)) = length gs"
proof -
  have "mset (sort_by_count_desc (object_entries gs)) = mset gs"
    by (simp add: mset_sort_by_count_desc mset_object_entries)
  then show ?thesis by (metis size_mset)
qed

lemma legacy_layout_len:
  assumes "legs = [] \<or> (\<exists>l \<in> set legs. grouped tm now l)"
  shows "\<exists>r. legacy_layout tm now legs d = Inr r \<and> length (layout_seats r) = length legs"
proof -
  let ?groups = "partyGroups tm now legs"
  let ?parties = "sort_by_count_desc (object_entries ?groups)"
  let ?st = "initial_state ?groups ?parties"
  have seats0: "seats ?st = []" by (simp add: initial_state_def)
  have "has_party ?st \<or> length legs \<le> length (seats ?st)"
  proof (cases "legs = []")
    case True
    then show ?thesis by simp
  next
    case False
    then have "\<exists>l \<in> set legs. grouped tm now l" using assms by simp
    then have "?groups \<noteq> []" by (simp add: partyGroups_empty_iff)
    then have "?parties \<noteq> []"
      using length_legacy_parties[of ?groups] by (metis length_0_conv)
    then show ?thesis using initial_has_party by blast
  qed
  moreover have "length (seats ?st) \<le> length legs" by (simp only: seats0 list.size le0)
  ultimately have "\<exists>st'. legacy_rows_loop ?parties d (length legs) (legacy_seatsPerRow (length legs)) [0..<rows] ?st = Inr st'
     \<and> length (seats st') = min (length legs) (length (seats ?st)
          + sum_list (map (\<lambda>r. nat (legacy_seatsInRow (legacy_seatsPerRow (length legs)) r)) [0..<rows]))"
    by (rule legacy_rows_loop_len)
  then obtain st' where run: "legacy_rows_loop ?parties d (length legs) (legacy_seatsPerRow (length legs)) [0..<rows] ?st = Inr st'"
    and len: "length (seats st') = min (length legs) (length (seats ?st)
          + sum_list (map (\<lambda>r. nat (legacy_seatsInRow (legacy_seatsPerRow (length legs)) r)) [0..<rows]))"
    by blast
  have "length (seats st') = length legs"
    using len legacy_capacity[of "length legs"] by (simp only: seats0 list.size add_0 min_absorb1)
  then show ?thesis
    using run by (simp add: legacy_layout_def Let_def)
qed

lemma legacy_layout_undefined:
  assumes "legs \<noteq> []" and "\<not> (\<exists>l \<in> set legs. grouped tm now l)"
  shows "legacy_layout tm now legs d = Inl TypeError"
proof -
  let ?n = "length legs"
  let ?spr = "legacy_seatsPerRow ?n"
  let ?k = "legacy_seatsInRow ?spr 0"
  have g: "partyGroups tm now legs = []" using assms(2) by (simp add: partyGroups_empty_iff)
  have p: "sort_by_count_desc (object_entries []) = []"
    by (simp add: sort_by_count_desc_def object_entries_def)
  have n: "0 < ?n" using assms(1) by simp
  have "0 < ?spr" using legacy_seatsPerRow_ge[of ?n] n by linarith
  then have "0 < nat ?k" using legacy_seatsInRow_ge[of ?spr 0] by linarith
  then have row: "[0..<nat ?k] = 0 # [1..<nat ?k]" by (simp add: upt_conv_Cons)
  have step: "legacy_seat_step [] d 0 ?k (initial_state [] []) 0 = Inl TypeError"
    by (simp add: legacy_seat_step_def Let_def next_party_def initial_state_def)
  have seats0: "length (seats (initial_state [] [])) < ?n"
    using n by (simp add: initial_state_def)
  have rl: "legacy_row_loop [] d ?n 0 ?k [0..<nat ?k] (initial_state [] []) = Inl TypeError"
    unfolding row using seats0 step by simp
  have rs: "legacy_rows_loop [] d ?n ?spr [0..<rows] (initial_state [] []) = Inl TypeError"
    by (simp add: rows_upt Let_def rl)
  show ?thesis
    by (simp add: legacy_layout_def Let_def g p rs)
qed

section \<open>Lemmas: buckets and lookup\<close>



lemma find_first:
  "find P xs = Some m \<longleftrightarrow> (\<exists>i<length xs. xs ! i = m \<and> P (xs ! i) \<and> (\<forall>j<i. \<not> P (xs ! j)))"
  unfolding find_Some_iff by blast

lemma ex_partyId: "alias \<noteq> [] \<Longrightarrow> partyId_of epoch_ms ex_now (ex_legislator alias) = alias"
  by (simp add: partyId_of_def ex_legislator_def getCurrentMilitancia_def ex_militancia_def
      epoch_ms_def ex_now_def current_partyId_def)



lemma count_list_map_filter: "count_list (map f xs) k = length (filter (\<lambda>x. f x = k) xs)"
  by (induction xs) auto

lemma map_alias_blocks:
  "map partyAlias (blocks ps) = concat (map (\<lambda>(k, p). replicate (partyCount p) (partyAlias p)) ps)"
  by (induction ps) (auto simp: blocks_def)

lemma map_alias_seats:
  "length xs = length ys \<Longrightarrow> map seat_partyAlias (map2 mk_seat xs ys) = map partyAlias ys"
  by (induction xs ys rule: list_induct2) (simp_all add: mk_seat_def)

lemma successively_same:
  "successively P g \<Longrightarrow> (\<And>a b. P a b \<Longrightarrow> f a = f b) \<Longrightarrow> m \<in> set g \<Longrightarrow> f m = f (hd g)"
proof (induction g arbitrary: m)
  case Nil
  then show ?case by simp
next
  case (Cons x g)
  show ?case
  proof (cases g)
    case Nil
    with Cons.prems show ?thesis by simp
  next
    case (Cons y g')
    with Cons.prems have "P x y" and s: "successively P g" by (simp_all add: successively_Cons)
    then have xy: "f x = f y" using Cons.prems(2) by blast
    show ?thesis
    proof (cases "m = x")
      case True
      then show ?thesis by simp
    next
      case False
      then have "m \<in> set g" using Cons.prems(3) by simp
      from Cons.IH[OF s Cons.prems(2) this] xy \<open>g = y # g'\<close> show ?thesis by simp
    qed
  qed
qed

lemma merge_step_last:
  "merge_step tm merged a \<noteq> [] \<and> tracks (last (merge_step tm merged a)) a"
  by (simp add: merge_step_def tracks_def new_merged_def extend_merged_def)

lemma scan_snoc: "foldl (merge_step tm) [] (xs @ [a]) = merge_step tm (foldl (merge_step tm) [] xs) a"
  by simp

lemma merge_step_overlap:
  assumes "merged \<noteq> []" and "tm (FechaInicio b) < tm (merged_FechaTermino (last merged))"
  shows "merge_step tm merged b = merged @ [new_merged b]"
  using assms by (simp add: merge_step_def arePeriodsSequential_iff)

section \<open>Lemmas: the example data and the number of seats\<close>

lemma reorders_id: "reorders (\<lambda>ps. ps)"
  by (simp add: reorders_def)

lemma inherited_constructor: "inherited ''constructor''"
  by (simp add: inherited_def object_prototype_members_def)

lemma not_inherited_IND: "\<not> inherited ''IND''"
  by (simp add: inherited_def object_prototype_members_def)

lemma not_inherited_PS: "\<not> inherited ''PS''"
  by (simp add: inherited_def object_prototype_members_def)

lemma grouped_PS: "grouped epoch_ms ex_now (ex_legislator ''PS'')"
  by (simp add: grouped_def ex_partyId not_inherited_PS)

lemma not_grouped_constructor: "\<not> grouped epoch_ms ex_now (ex_legislator ''constructor'')"
  by (simp add: grouped_def ex_partyId inherited_constructor)

lemma layout_length:
  assumes "reorders engine" and "legs = [] \<or> (\<exists>l \<in> set legs. grouped tm now l)"
  shows "\<exists>r. layout engine tm now legs d = Inr r \<and> length (layout_seats r) = length legs"
proof (cases "legs = []")
  case True
  then show ?thesis by (simp add: layout_empty)
next
  case False
  then have g: "\<exists>l \<in> set legs. grouped tm now l" using assms(2) by simp
  let ?n = "length legs"
  let ?positions = "sort_positions engine (allPositions d (seatsPerRowArray ?n))"
  have "length (take ?n ?positions) = ?n"
    using assms(1) by (simp add: length_sort_positions allPositions_enough)
  then have "length (map2 mk_seat (take ?n ?positions)
       (padded_blocks (sortedParties (partyGroups tm now legs)) ?n)) = ?n"
    by (simp add: length_padded_blocks)
  then show ?thesis by (simp add: layout_eq[OF assms(1) g])
qed

section \<open>Lemmas: two runs\<close>

lemma layout_run_agrees:
  assumes "\<forall>i < length legs. getCurrentMilitancia tm (nows (clock_reads w + i)) (Diputado (legs ! i))
          = getCurrentMilitancia tm (nows' (clock_reads w' + i)) (Diputado (legs ! i))"
  shows "fst (layout_run engine tm nows w legs d) = fst (layout_run engine tm nows' w' legs d)"
proof -
  have eq: "fst (partyGroups_run tm nows w legs) = fst (partyGroups_run tm nows' w' legs)"
    unfolding partyGroups_run_def by (rule run_agrees[OF _ assms]) simp
  show ?thesis by (simp only: layout_run_def Let_def fst_conv eq)
qed

lemma layout_run_clock:
  "clock_reads (snd (layout_run engine tm nows w legs d)) = clock_reads w + length legs"
proof -
  have "clock_reads (snd (partyGroups_run tm nows w legs)) = clock_reads w + length legs"
    unfolding partyGroups_run_def by (rule run_clock_reads) simp
  then show ?thesis by (simp add: layout_run_def Let_def)
qed

lemma ex_clock_legend:
  "map fst (sortedParties (partyGroups epoch_ms ex_now [ex_legislator ''PS''])) = [''PS'']
   \<and> map fst (sortedParties (partyGroups epoch_ms (ex_now + 100000000000) [ex_legislator ''PS''])) = [''IND'']"
  by code_simp

lemma ex_clock_grouped:
  "grouped epoch_ms (ex_now + 100000000000) (ex_legislator ''PS'')"
proof -
  have "partyId_of epoch_ms (ex_now + 100000000000) (ex_legislator ''PS'') = ''IND''" by code_simp
  then show ?thesis by (simp add: grouped_def not_inherited_IND)
qed

lemma ex_two_runs_world:
  "snd (partyGroups_run epoch_ms (\<lambda>i. ex_now + int i) initial_world
          [ex_legislator ''__proto__'', ex_legislator ''count'', ex_legislator ''PS''])
     = \<lparr> clock_reads = 3, count_written = [''__proto__''] \<rparr>
   \<and> snd (partyGroups_run epoch_ms (\<lambda>i. ex_now + int i) \<lparr> clock_reads = 3, count_written = [''__proto__''] \<rparr>
          [ex_legislator ''__proto__'', ex_legislator ''count'', ex_legislator ''PS''])
     = \<lparr> clock_reads = 6, count_written = [''__proto__'', ''__proto__''] \<rparr>"
  by code_simp

lemma ex_resolution:
  "0 \<le> k \<Longrightarrow> k < 1000 \<Longrightarrow>
     getCurrentMilitancia epoch_ms (ex_now + k) (Diputado (ex_legislator a))
       = getCurrentMilitancia epoch_ms ex_now (Diputado (ex_legislator a))"
  by (simp add: getCurrentMilitancia_def ex_legislator_def ex_militancia_def epoch_ms_def ex_now_def)

lemma ex_two_runs_parties:
  "map (\<lambda>(k, p). (k, partyCount p)) (sortedParties (partyGroups epoch_ms ex_now
        [ex_legislator ''__proto__'', ex_legislator ''count'', ex_legislator ''PS'']))
     = [(''PS'', 1), (''count'', 1)]
   \<and> map partyAlias (padded_blocks (sortedParties (partyGroups epoch_ms ex_now
        [ex_legislator ''__proto__'', ex_legislator ''count'', ex_legislator ''PS''])) 3)
     = [''PS'', ''count'', ''count'']"
  by code_simp

lemma grouped_in_example:
  "\<exists>l \<in> set [ex_legislator ''__proto__'', ex_legislator ''count'', ex_legislator ''PS'']. grouped epoch_ms ex_now l"
  by (simp add: grouped_PS)

section \<open>Lemmas: the order of the entries, further examples\<close>






lemma sortedParties_Nil: "sortedParties [] = []"
  by (simp add: sortedParties_def leftParties_def centerParties_def rightParties_def
      sort_by_count_desc_def object_entries_def)

lemma ex_blocks:
  "sortedParties (partyGroups epoch_ms ex_now
      [ex_legislator ''RN'', ex_legislator ''PS'', ex_legislator ''RN'', ex_legislator ''DC''])
   = [ex_party ''PS'' 1, ex_party ''DC'' 1, ex_party ''RN'' 2]"
  by code_simp

lemma ex_all_grouped:
  "list_all (grouped epoch_ms ex_now)
     [ex_legislator ''RN'', ex_legislator ''PS'', ex_legislator ''RN'', ex_legislator ''DC'']"
  by (simp add: grouped_def ex_partyId inherited_def object_prototype_members_def)

lemma ex_padded:
  "map (\<lambda>(k, p). (k, partyCount p)) (sortedParties (partyGroups epoch_ms ex_now
        [ex_legislator ''PS'', ex_legislator ''constructor'', ex_legislator ''RN'', ex_legislator ''toString'']))
     = [(''PS'', 1), (''RN'', 1)]
   \<and> map partyAlias (padded_blocks (sortedParties (partyGroups epoch_ms ex_now
        [ex_legislator ''PS'', ex_legislator ''constructor'', ex_legislator ''RN'', ex_legislator ''toString''])) 4)
     = [''PS'', ''RN'', ''RN'', ''RN'']"
  by code_simp

lemma ex_merged:
  "mergeSequentialMilitancias epoch_ms
      (Many [ex_militancia ''2020-01-02'' ''2022-03-11'' ex_PS,
             ex_militancia ''2018-03-11'' ''2020-01-01'' ex_PS])
   = [\<lparr> merged_Partido = ex_PS, merged_FechaInicio = ''2018-03-11'', merged_FechaTermino = ''2022-03-11'',
        periodCount = 2,
        originalMilitancias = [ex_militancia ''2018-03-11'' ''2020-01-01'' ex_PS,
                               ex_militancia ''2020-01-02'' ''2022-03-11'' ex_PS] \<rparr>]"
  by (simp add: mergeSequentialMilitancias_def sort_by_start_def merge_step_def
      arePeriodsSequential_def new_merged_def extend_merged_def ex_militancia_def ex_PS_def epoch_ms_def)

lemma ex_ind:
  "map_of (partyGroups epoch_ms ex_now [ex_legislator ''PS'', ex_expired]) ''IND''
   = Some \<lparr> partyName = ''Independiente'', partyAlias = ''IND'', partyCount = 1,
            color = ''#808080'', alignment = Center \<rparr>"
  by code_simp

section \<open>The claims\<close>

text \<open>
  C1. The claim has one seat per legislator for every list. On the code this holds
  exactly when the list is empty or some legislator is grouped, that is counted under a
  party id that names no member inherited from \<^verbatim>\<open>Object.prototype\<close>: then both versions
  of the component return, with exactly one seat per legislator, whatever the total
  (below the 128 positions that the four inner rows always give, above 180, or zero).
  For every other list no group is made, the current party group is \<^verbatim>\<open>undefined\<close>, and
  both versions throw a \<^verbatim>\<open>TypeError\<close> at the first seat: so for the one legislator whose
  current party has the alias \<^verbatim>\<open>constructor\<close>. The row counts are 20, 28, 36, 44 and 52
  plus the adjustment; they sum to the number of legislators (the last one may be
  negative), and the pooled positions number \<open>max 128 n\<close>. Where an angle is \<^verbatim>\<open>NaN\<close> the
  order of the positions is the engine's, of which only that it reorders its argument is
  used.
\<close>

theorem seat_count_exact:
  assumes "reorders engine"
  shows "(if legislators = [] \<or> (\<exists>l \<in> set legislators. grouped tm now l)
          then (\<exists>r. layout engine tm now legislators diameter = Inr r
                   \<and> length (layout_seats r) = length legislators)
             \<and> (\<exists>r. legacy_layout tm now legislators diameter = Inr r
                   \<and> length (layout_seats r) = length legislators)
          else layout engine tm now legislators diameter = Inl TypeError
             \<and> legacy_layout tm now legislators diameter = Inl TypeError)
       \<and> \<not> grouped epoch_ms ex_now (ex_legislator ''constructor'')
       \<and> layout engine epoch_ms ex_now [ex_legislator ''constructor''] diameter = Inl TypeError
       \<and> legacy_layout epoch_ms ex_now [ex_legislator ''constructor''] diameter = Inl TypeError
       \<and> seatsPerRowArray (length legislators) = [20, 28, 36, 44, 52 + (int (length legislators) - 180)]
       \<and> foldl (\<lambda>a b. a + b) 0 (seatsPerRowArray (length legislators)) = int (length legislators)
       \<and> length (allPositions diameter (seatsPerRowArray (length legislators)))
            = max 128 (length legislators)"
proof -
  let ?n = "length legislators"
  have main: "if legislators = [] \<or> (\<exists>l \<in> set legislators. grouped tm now l)
          then (\<exists>r. layout engine tm now legislators diameter = Inr r
                   \<and> length (layout_seats r) = length legislators)
             \<and> (\<exists>r. legacy_layout tm now legislators diameter = Inr r
                   \<and> length (layout_seats r) = length legislators)
          else layout engine tm now legislators diameter = Inl TypeError
             \<and> legacy_layout tm now legislators diameter = Inl TypeError"
  proof (cases "legislators = [] \<or> (\<exists>l \<in> set legislators. grouped tm now l)")
    case True
    have "\<exists>r. layout engine tm now legislators diameter = Inr r \<and> length (layout_seats r) = ?n"
      using assms True by (rule layout_length)
    moreover have "\<exists>r. legacy_layout tm now legislators diameter = Inr r \<and> length (layout_seats r) = ?n"
      using True by (rule legacy_layout_len)
    ultimately show ?thesis using True by simp
  next
    case False
    then have ne: "legislators \<noteq> []" and ng: "\<not> (\<exists>l \<in> set legislators. grouped tm now l)"
      by simp_all
    have "layout engine tm now legislators diameter = Inl TypeError"
      using ne ng by (rule layout_undefined)
    moreover have "legacy_layout tm now legislators diameter = Inl TypeError"
      using ne ng by (rule legacy_layout_undefined)
    ultimately show ?thesis using False by simp
  qed
  have ng: "\<not> (\<exists>l \<in> set [ex_legislator ''constructor'']. grouped epoch_ms ex_now l)"
    by (simp add: not_grouped_constructor)
  have f1: "layout engine epoch_ms ex_now [ex_legislator ''constructor''] diameter = Inl TypeError"
    by (rule layout_undefined[OF _ ng]) simp
  have f2: "legacy_layout epoch_ms ex_now [ex_legislator ''constructor''] diameter = Inl TypeError"
    by (rule legacy_layout_undefined[OF _ ng]) simp
  have sum: "foldl (\<lambda>a b. a + b) 0 (seatsPerRowArray ?n) = int ?n"
    by (simp add: seatsPerRowArray_eq)
  have len: "length (allPositions diameter (seatsPerRowArray ?n)) = max 128 ?n"
    by (simp add: length_allPositions)
  have arr: "seatsPerRowArray ?n = [20, 28, 36, 44, 52 + (int ?n - 180)]"
    by (simp add: seatsPerRowArray_eq)
  show ?thesis
    by (intro conjI main not_grouped_constructor f1 f2 arr sum len)
qed

text \<open>An instance of the theorem above, on the example data.\<close>

theorem seat_count_exact_witness:
  "reorders (\<lambda>ps. ps)
   \<and> layout (\<lambda>ps. ps) epoch_ms ex_now [ex_legislator ''constructor''] 300 = Inl TypeError
   \<and> legacy_layout epoch_ms ex_now [ex_legislator ''constructor''] 300 = Inl TypeError
   \<and> (\<exists>r. layout (\<lambda>ps. ps) epoch_ms ex_now [] 300 = Inr r \<and> length (layout_seats r) = 0)
   \<and> (\<exists>r. layout (\<lambda>ps. ps) epoch_ms ex_now (replicate 100 (ex_legislator ''PS'')) 300 = Inr r
         \<and> length (layout_seats r) = 100)
   \<and> (\<exists>r. layout (\<lambda>ps. ps) epoch_ms ex_now (replicate 129 (ex_legislator ''PS'')) 300 = Inr r
         \<and> length (layout_seats r) = 129)
   \<and> (\<exists>r. layout (\<lambda>ps. ps) epoch_ms ex_now (replicate 200 (ex_legislator ''PS'')) 300 = Inr r
         \<and> length (layout_seats r) = 200)
   \<and> (\<exists>r. legacy_layout epoch_ms ex_now (replicate 3 (ex_legislator ''PS'')) 300 = Inr r
         \<and> length (layout_seats r) = 3)"
  using seat_count_exact[OF reorders_id, where tm = epoch_ms and now = ex_now and diameter = 300 and legislators = "[]"]
    seat_count_exact[OF reorders_id, where tm = epoch_ms and now = ex_now and diameter = 300 and legislators = "replicate 100 (ex_legislator ''PS'')"]
    seat_count_exact[OF reorders_id, where tm = epoch_ms and now = ex_now and diameter = 300 and legislators = "replicate 129 (ex_legislator ''PS'')"]
    seat_count_exact[OF reorders_id, where tm = epoch_ms and now = ex_now and diameter = 300 and legislators = "replicate 200 (ex_legislator ''PS'')"]
    seat_count_exact[OF reorders_id, where tm = epoch_ms and now = ex_now and diameter = 300 and legislators = "replicate 3 (ex_legislator ''PS'')"]
  by (simp add: reorders_id grouped_PS)

text \<open>
  C2. Two consecutive intervals of the same party, the second starting strictly before
  the end recorded in the last merged entry: the claim has them merged. On the code they
  are not: \<^verbatim>\<open>arePeriodsSequential\<close> requires a difference of at least zero. Here the
  second interval starts on 2020-01-02, before the first ends on 2020-01-10, and the
  result has two entries.
\<close>

theorem overlap_not_merged_example:
  "Partido_Id (Partido (ex_militancia ''2018-03-11'' ''2020-01-10'' ex_PS))
     = Partido_Id (Partido (ex_militancia ''2020-01-02'' ''2022-03-11'' ex_PS))
   \<and> epoch_ms (FechaInicio (ex_militancia ''2020-01-02'' ''2022-03-11'' ex_PS))
       < epoch_ms (FechaTermino (ex_militancia ''2018-03-11'' ''2020-01-10'' ex_PS))
   \<and> map originalMilitancias (mergeSequentialMilitancias epoch_ms
        (Many [ex_militancia ''2018-03-11'' ''2020-01-10'' ex_PS,
               ex_militancia ''2020-01-02'' ''2022-03-11'' ex_PS]))
      = [[ex_militancia ''2018-03-11'' ''2020-01-10'' ex_PS],
         [ex_militancia ''2020-01-02'' ''2022-03-11'' ex_PS]]"
  by (simp add: mergeSequentialMilitancias_def sort_by_start_def merge_step_def
      arePeriodsSequential_def new_merged_def extend_merged_def ex_militancia_def ex_PS_def epoch_ms_def)

text \<open>
  C2, as amended. After any prefix of the scan that ends with the interval \<open>a\<close>, the
  last merged entry ends where \<open>a\<close> ends; if the next interval \<open>b\<close> has the same
  party id and starts strictly before that end, the step appends a new entry for \<open>b\<close>
  with one period, and leaves the entries before it as they are. Nothing is flagged.
\<close>

theorem overlap_starts_new_entry:
  assumes "merged = foldl (merge_step tm) [] (xs @ [a])"
    and "Partido_Id (Partido a) = Partido_Id (Partido b)"
    and "tm (FechaInicio b) < tm (merged_FechaTermino (last merged))"
  shows "merged \<noteq> [] \<and> merged_FechaTermino (last merged) = FechaTermino a
       \<and> merge_step tm merged b = merged @ [new_merged b]
       \<and> foldl (merge_step tm) [] (xs @ [a, b]) = merged @ [new_merged b]"
proof -
  have m: "merged = merge_step tm (foldl (merge_step tm) [] xs) a"
    using assms(1) by simp
  have ne: "merged \<noteq> []" and tr: "tracks (last merged) a"
    using merge_step_last[of tm "foldl (merge_step tm) [] xs" a] m by simp_all
  have step: "merge_step tm merged b = merged @ [new_merged b]"
    using ne assms(3) by (rule merge_step_overlap)
  have "foldl (merge_step tm) [] (xs @ [a, b]) = merge_step tm merged b"
    using assms(1) by simp
  with ne tr step show ?thesis by (simp add: tracks_def)
qed

text \<open>An instance of the theorem above, on the example data.\<close>

theorem overlap_starts_new_entry_witness:
  "map periodCount (foldl (merge_step epoch_ms) []
      ([] @ [ex_militancia ''2018-03-11'' ''2020-01-10'' ex_PS,
             ex_militancia ''2020-01-02'' ''2022-03-11'' ex_PS])) = [1, 1]
   \<and> merged_FechaTermino (last (foldl (merge_step epoch_ms) []
        ([] @ [ex_militancia ''2018-03-11'' ''2020-01-10'' ex_PS]))) = ''2020-01-10''"
  using overlap_starts_new_entry[of "foldl (merge_step epoch_ms) [] ([] @ [ex_militancia ''2018-03-11'' ''2020-01-10'' ex_PS])"
      epoch_ms "[]" "ex_militancia ''2018-03-11'' ''2020-01-10'' ex_PS"
      "ex_militancia ''2020-01-02'' ''2022-03-11'' ex_PS"]
  by (simp add: merge_step_def new_merged_def ex_militancia_def ex_PS_def epoch_ms_def)

text \<open>
  C3. With 129 legislators the outermost row has exactly one seat. No division error is
  raised, but the row's only position is not at the midpoint angle: \<^verbatim>\<open>0 / 0\<close> makes its
  angle, and with it both coordinates, \<^verbatim>\<open>NaN\<close>. When some legislator is grouped the chart
  returns and has a seat with these coordinates, whatever order the engine gives the
  positions; when none is, the chart throws the \<^verbatim>\<open>TypeError\<close> of C1. In neither case is
  the seat placed at the midpoint.
\<close>

theorem single_seat_row_is_nan:
  assumes "reorders engine" and "length legislators = 129"
  shows "seatsPerRowArray (length legislators) ! 4 = 1
       \<and> row_positions diameter 4 (seatsPerRowArray (length legislators) ! 4) = [nan_position]
       \<and> (if \<exists>l \<in> set legislators. grouped tm now l
          then \<exists>r. layout engine tm now legislators diameter = Inr r
                 \<and> (\<exists>s \<in> set (layout_seats r). seat_x s = None \<and> seat_y s = None)
          else layout engine tm now legislators diameter = Inl TypeError)"
proof -
  let ?pooled = "allPositions diameter (seatsPerRowArray (length legislators))"
  let ?positions = "sort_positions engine ?pooled"
  let ?bl = "padded_blocks (sortedParties (partyGroups tm now legislators)) (length legislators)"
  have row: "seatsPerRowArray (length legislators) ! 4 = 1"
    using assms(2) by (simp add: seatsPerRowArray_eq)
  have single: "row_positions diameter 4 1 = [nan_position]"
    by (simp add: row_positions_single nan_position_def)
  have "nan_position \<in> set ?pooled"
    using assms(2) single by (simp add: allPositions_def rows_upt seatsPerRowArray_eq)
  then have "nan_position \<in> set ?positions"
    using mset_sort_positions[OF assms(1), of ?pooled] by (metis set_mset_mset)
  then obtain i where i: "i < length ?positions" and pi: "?positions ! i = nan_position"
    by (auto simp: in_set_conv_nth)
  have lp: "length ?positions = 129"
    using assms by (simp add: length_sort_positions length_allPositions)
  have lb: "length ?bl = 129"
    using assms(2) by (simp add: length_padded_blocks)
  let ?seats = "map2 mk_seat (take (length legislators) ?positions) ?bl"
  have ls: "length ?seats = 129" using lp lb assms(2) by simp
  have "?seats ! i = mk_seat nan_position (?bl ! i)"
    using i lp lb pi assms(2) by simp
  moreover have "?seats ! i \<in> set ?seats"
    using i lp ls by (simp only: nth_mem)
  ultimately have nan: "\<exists>s \<in> set ?seats. seat_x s = None \<and> seat_y s = None"
    by (metis (no_types, lifting) mk_seat_def nan_position_def position.select_convs(1,2) seat.select_convs(1,2))
  have ne: "legislators \<noteq> []" using assms(2) by auto
  have third: "if \<exists>l \<in> set legislators. grouped tm now l
          then \<exists>r. layout engine tm now legislators diameter = Inr r
                 \<and> (\<exists>s \<in> set (layout_seats r). seat_x s = None \<and> seat_y s = None)
          else layout engine tm now legislators diameter = Inl TypeError"
  proof (cases "\<exists>l \<in> set legislators. grouped tm now l")
    case True
    have "\<exists>r. layout engine tm now legislators diameter = Inr r
                 \<and> (\<exists>s \<in> set (layout_seats r). seat_x s = None \<and> seat_y s = None)"
      using nan by (simp add: layout_eq[OF assms(1) True])
    then show ?thesis using True by simp
  next
    case False
    have "layout engine tm now legislators diameter = Inl TypeError"
      using ne False by (rule layout_undefined)
    then show ?thesis using False by simp
  qed
  from row single third show ?thesis by simp
qed

text \<open>An instance of the theorem above, on the example data.\<close>

theorem single_seat_row_is_nan_witness:
  "reorders (\<lambda>ps. ps) \<and> length (replicate 129 (ex_legislator ''PS'')) = 129
   \<and> (\<exists>r. layout (\<lambda>ps. ps) epoch_ms ex_now (replicate 129 (ex_legislator ''PS'')) 300 = Inr r
         \<and> (\<exists>s \<in> set (layout_seats r). seat_x s = None \<and> seat_y s = None))"
  using single_seat_row_is_nan[OF reorders_id, where tm = epoch_ms and now = ex_now and diameter = 300
      and legislators = "replicate 129 (ex_legislator ''PS'')"]
  by (simp add: reorders_id grouped_PS)

text \<open>
  C4. The entries of the result are exactly the maximal runs of the start-sorted
  intervals under \<open>sequential_pair\<close>: neighbours are in the same entry if and only if
  they have the same party id and the gap from the end of the first to the start of the
  second lies in the closed range from 0 to one day. So the entries concatenate to the
  sorted list, every entry is a chain of sequential pairs of one party id, and between
  two neighbouring entries the pair is not sequential. A gap of exactly one day merges
  (one entry of two periods); a gap of one day and one second, a gap of two days, or a
  different party with a gap of one day, leave two entries.
\<close>

theorem merge_iff_sequential:
  "(let srt = sort_by_start tm (normalizeMilitancias ms);
        out = mergeSequentialMilitancias tm ms
    in map originalMilitancias out = runs (sequential_pair tm) srt
       \<and> concat (map originalMilitancias out) = srt
       \<and> (\<forall>r \<in> set out. originalMilitancias r \<noteq> []
             \<and> successively (sequential_pair tm) (originalMilitancias r)
             \<and> (\<forall>m \<in> set (originalMilitancias r). Partido_Id (Partido m) = Partido_Id (merged_Partido r)))
       \<and> successively (\<lambda>r s. \<not> sequential_pair tm (last (originalMilitancias r)) (hd (originalMilitancias s))) out)
   \<and> map periodCount (mergeSequentialMilitancias epoch_ms
        (Many [ex_militancia ''2018-03-11'' ''2020-01-01'' ex_PS,
               ex_militancia ''2020-01-02'' ''2022-03-11'' ex_PS])) = [2]
   \<and> map periodCount (mergeSequentialMilitancias epoch_ms
        (Many [ex_militancia ''2018-03-11'' ''2020-01-01'' ex_PS,
               ex_militancia ''2020-01-02T00:00:01Z'' ''2022-03-11'' ex_PS])) = [1, 1]
   \<and> map periodCount (mergeSequentialMilitancias epoch_ms
        (Many [ex_militancia ''2018-03-11'' ''2020-01-01'' ex_PS,
               ex_militancia ''2020-01-03'' ''2022-03-11'' ex_PS])) = [1, 1]
   \<and> map periodCount (mergeSequentialMilitancias epoch_ms
        (Many [ex_militancia ''2018-03-11'' ''2020-01-01'' ex_PS,
               ex_militancia ''2020-01-02'' ''2022-03-11'' ex_RN])) = [1, 1]"
proof -
  let ?srt = "sort_by_start tm (normalizeMilitancias ms)"
  let ?out = "mergeSequentialMilitancias tm ms"
  have out: "?out = foldl (merge_step tm) [] ?srt"
    by (simp add: mergeSequentialMilitancias_def)
  have r: "map originalMilitancias ?out = runs (sequential_pair tm) ?srt"
    unfolding out by (rule scan_runs)
  have c: "concat (map originalMilitancias ?out) = ?srt"
    unfolding r by (rule concat_runs)
  have each: "originalMilitancias r \<noteq> [] \<and> successively (sequential_pair tm) (originalMilitancias r)
      \<and> (\<forall>m \<in> set (originalMilitancias r). Partido_Id (Partido m) = Partido_Id (merged_Partido r))"
    if "r \<in> set ?out" for r
  proof -
    have "originalMilitancias r \<in> set (map originalMilitancias ?out)"
      using that by simp
    then have mem: "originalMilitancias r \<in> set (runs (sequential_pair tm) ?srt)"
      by (simp only: r)
    have a: "originalMilitancias r \<noteq> []" and b: "successively (sequential_pair tm) (originalMilitancias r)"
      using runs_chain[of "sequential_pair tm" ?srt] mem by blast+
    have "\<forall>r \<in> set (foldl (merge_step tm) [] ?srt). basic_inv r"
      by (rule scan_basic_inv) simp
    then have "basic_inv r" using that by (simp only: out)
    then have p: "merged_Partido r = Partido (hd (originalMilitancias r))" by (simp add: basic_inv_def)
    have "Partido_Id (Partido m) = Partido_Id (Partido (hd (originalMilitancias r)))"
      if "m \<in> set (originalMilitancias r)" for m
      by (rule successively_same[OF b _ that]) (simp add: sequential_pair_def)
    then have "\<forall>m \<in> set (originalMilitancias r). Partido_Id (Partido m) = Partido_Id (merged_Partido r)"
      by (simp only: p) blast
    with a b show ?thesis by blast
  qed
  have "successively (\<lambda>h k. \<not> sequential_pair tm (last h) (hd k)) (map originalMilitancias ?out)"
    unfolding r by (rule runs_cuts)
  then have cuts: "successively (\<lambda>r s. \<not> sequential_pair tm (last (originalMilitancias r)) (hd (originalMilitancias s))) ?out"
    by (simp add: successively_map)
  have ex: "map periodCount (mergeSequentialMilitancias epoch_ms
        (Many [ex_militancia ''2018-03-11'' ''2020-01-01'' ex_PS,
               ex_militancia ''2020-01-02'' ''2022-03-11'' ex_PS])) = [2]"
    "map periodCount (mergeSequentialMilitancias epoch_ms
        (Many [ex_militancia ''2018-03-11'' ''2020-01-01'' ex_PS,
               ex_militancia ''2020-01-02T00:00:01Z'' ''2022-03-11'' ex_PS])) = [1, 1]"
    "map periodCount (mergeSequentialMilitancias epoch_ms
        (Many [ex_militancia ''2018-03-11'' ''2020-01-01'' ex_PS,
               ex_militancia ''2020-01-03'' ''2022-03-11'' ex_PS])) = [1, 1]"
    "map periodCount (mergeSequentialMilitancias epoch_ms
        (Many [ex_militancia ''2018-03-11'' ''2020-01-01'' ex_PS,
               ex_militancia ''2020-01-02'' ''2022-03-11'' ex_RN])) = [1, 1]"
    by (simp_all add: mergeSequentialMilitancias_def sort_by_start_def merge_step_def
      arePeriodsSequential_def new_merged_def extend_merged_def ex_militancia_def ex_PS_def ex_RN_def epoch_ms_def)
  have all: "\<forall>r \<in> set ?out. originalMilitancias r \<noteq> []
             \<and> successively (sequential_pair tm) (originalMilitancias r)
             \<and> (\<forall>m \<in> set (originalMilitancias r). Partido_Id (Partido m) = Partido_Id (merged_Partido r))"
    using each by blast
  show ?thesis
    unfolding Let_def by (intro conjI r c all cuts ex)
qed

text \<open>An instance of the theorem above, on the example data.\<close>

theorem merge_iff_sequential_witness:
  "map originalMilitancias (mergeSequentialMilitancias epoch_ms
      (Many [ex_militancia ''2020-01-02'' ''2022-03-11'' ex_PS,
             ex_militancia ''2018-03-11'' ''2020-01-01'' ex_PS,
             ex_militancia ''2022-03-11'' ''2026-03-11'' ex_RN]))
   = [[ex_militancia ''2018-03-11'' ''2020-01-01'' ex_PS, ex_militancia ''2020-01-02'' ''2022-03-11'' ex_PS],
      [ex_militancia ''2022-03-11'' ''2026-03-11'' ex_RN]]"
  using merge_iff_sequential[of epoch_ms "Many [ex_militancia ''2020-01-02'' ''2022-03-11'' ex_PS,
             ex_militancia ''2018-03-11'' ''2020-01-01'' ex_PS,
             ex_militancia ''2022-03-11'' ''2026-03-11'' ex_RN]"]
  by (simp add: Let_def sort_by_start_def sequential_pair_def gap_ms_def one_day_ms_def
      ex_militancia_def ex_PS_def ex_RN_def epoch_ms_def)




text \<open>
  C6. When every legislator is grouped (so also for the empty list) the chart returns,
  and seat \<open>i\<close> is made of position \<open>i\<close> of the sorted pool and of entry \<open>i\<close> of the block
  sequence of the legend: each party of the legend, in the legend's order, as many
  consecutive times as its count. When only some are grouped the parties have fewer
  seats than there are legislators, and the seats left over go to the last party of the
  legend: the block sequence is padded with it. When none is grouped and the list is not
  empty, the chart throws. The sorted pool is a reordering of all rows' positions, long
  enough for every seat, and in descending order of angle whenever every angle is a
  number, that is for every total but 129. With 129 legislators the pool holds the
  position of the single-seat row, whose angle is \<^verbatim>\<open>NaN\<close>: the comparator is not
  consistent then, and the pool is in the order the engine leaves it in, which is no
  descending order of angle.
\<close>

theorem lockstep_blocks:
  assumes "reorders engine"
  shows "(let n = length legislators;
              pooled = allPositions diameter (seatsPerRowArray n);
              positions = sort_positions engine pooled;
              parties = sortedParties (partyGroups tm now legislators)
          in (list_all (grouped tm now) legislators \<longrightarrow>
                (\<exists>r. layout engine tm now legislators diameter = Inr r
                   \<and> layout_legend r = parties
                   \<and> layout_seats r = map2 mk_seat (take n positions)
                         (concat (map (\<lambda>(k, p). replicate (partyCount p) p) (layout_legend r)))
                   \<and> map seat_partyAlias (layout_seats r)
                         = concat (map (\<lambda>(k, p). replicate (partyCount p) (partyAlias p)) (layout_legend r))))
             \<and> ((\<exists>l \<in> set legislators. grouped tm now l) \<longrightarrow>
                (\<exists>r. layout engine tm now legislators diameter = Inr r
                   \<and> layout_legend r = parties
                   \<and> layout_seats r = map2 mk_seat (take n positions) (padded_blocks parties n)))
             \<and> (legislators \<noteq> [] \<and> \<not> (\<exists>l \<in> set legislators. grouped tm now l) \<longrightarrow>
                   layout engine tm now legislators diameter = Inl TypeError)
             \<and> n \<le> length positions
             \<and> mset positions = mset pooled
             \<and> (n \<noteq> 129 \<longrightarrow> list_all (\<lambda>p. pos_angle p \<noteq> None) pooled
                   \<and> sorted_wrt (\<lambda>a b. the (pos_angle a) \<ge> the (pos_angle b)) positions)
             \<and> (n = 129 \<longrightarrow> nan_position \<in> set pooled \<and> positions = engine pooled))"
proof -
  let ?n = "length legislators"
  let ?pooled = "allPositions diameter (seatsPerRowArray ?n)"
  let ?positions = "sort_positions engine ?pooled"
  let ?parties = "sortedParties (partyGroups tm now legislators)"
  let ?r = "\<lparr> layout_seats = map2 mk_seat (take ?n ?positions) (blocks ?parties), layout_legend = ?parties \<rparr>"
  let ?p = "\<lparr> layout_seats = map2 mk_seat (take ?n ?positions) (padded_blocks ?parties ?n), layout_legend = ?parties \<rparr>"
  have len: "?n \<le> length ?positions"
    using assms by (simp add: length_sort_positions allPositions_enough)
  have perm: "mset ?positions = mset ?pooled"
    using assms by (rule mset_sort_positions)
  have padded: "(\<exists>l \<in> set legislators. grouped tm now l) \<longrightarrow>
                (\<exists>r. layout engine tm now legislators diameter = Inr r
                   \<and> layout_legend r = ?parties
                   \<and> layout_seats r = map2 mk_seat (take ?n ?positions) (padded_blocks ?parties ?n))"
  proof
    assume g: "\<exists>l \<in> set legislators. grouped tm now l"
    have run: "layout engine tm now legislators diameter = Inr ?p"
      by (rule layout_eq[OF assms g])
    have legend: "layout_legend ?p = ?parties" by simp
    have seats: "layout_seats ?p = map2 mk_seat (take ?n ?positions) (padded_blocks ?parties ?n)" by simp
    show "\<exists>r. layout engine tm now legislators diameter = Inr r
                   \<and> layout_legend r = ?parties
                   \<and> layout_seats r = map2 mk_seat (take ?n ?positions) (padded_blocks ?parties ?n)"
      by (rule exI[where x = ?p]) (intro conjI run legend seats)
  qed
  have exact: "list_all (grouped tm now) legislators \<longrightarrow>
                (\<exists>r. layout engine tm now legislators diameter = Inr r
                   \<and> layout_legend r = ?parties
                   \<and> layout_seats r = map2 mk_seat (take ?n ?positions)
                         (concat (map (\<lambda>(k, p). replicate (partyCount p) p) (layout_legend r)))
                   \<and> map seat_partyAlias (layout_seats r)
                         = concat (map (\<lambda>(k, p). replicate (partyCount p) (partyAlias p)) (layout_legend r)))"
  proof
    assume all: "list_all (grouped tm now) legislators"
    have run: "layout engine tm now legislators diameter = Inr ?r"
    proof (cases "legislators = []")
      case True
      then show ?thesis
        by (simp add: layout_empty partyGroups_counted sortedParties_Nil blocks_def)
    next
      case False
      then obtain l where "l \<in> set legislators" by (cases legislators) auto
      then have g: "\<exists>l \<in> set legislators. grouped tm now l"
        using all by (auto simp: list_all_iff)
      show ?thesis
        using layout_eq[OF assms g, of diameter] by (simp only: padded_blocks_all_grouped[OF all])
    qed
    have lb: "length (blocks ?parties) = ?n"
      by (simp add: length_blocks_sortedParties filter_all[OF all])
    have al: "map seat_partyAlias (map2 mk_seat (take ?n ?positions) (blocks ?parties))
        = concat (map (\<lambda>(k, p). replicate (partyCount p) (partyAlias p)) ?parties)"
    proof -
      have "length (take ?n ?positions) = length (blocks ?parties)"
        using len lb by simp
      then show ?thesis by (simp only: map_alias_seats map_alias_blocks)
    qed
    have legend: "layout_legend ?r = ?parties" by simp
    have seats: "layout_seats ?r = map2 mk_seat (take ?n ?positions)
                       (concat (map (\<lambda>(k, p). replicate (partyCount p) p) (layout_legend ?r)))"
      by (simp add: blocks_def)
    have al': "map seat_partyAlias (layout_seats ?r)
                       = concat (map (\<lambda>(k, p). replicate (partyCount p) (partyAlias p)) (layout_legend ?r))"
      using al by simp
    show "\<exists>r. layout engine tm now legislators diameter = Inr r
                   \<and> layout_legend r = ?parties
                   \<and> layout_seats r = map2 mk_seat (take ?n ?positions)
                         (concat (map (\<lambda>(k, p). replicate (partyCount p) p) (layout_legend r)))
                   \<and> map seat_partyAlias (layout_seats r)
                         = concat (map (\<lambda>(k, p). replicate (partyCount p) (partyAlias p)) (layout_legend r))"
      by (rule exI[where x = ?r]) (intro conjI run legend seats al')
  qed
  have fails: "legislators \<noteq> [] \<and> \<not> (\<exists>l \<in> set legislators. grouped tm now l) \<longrightarrow>
                   layout engine tm now legislators diameter = Inl TypeError"
  proof
    assume h: "legislators \<noteq> [] \<and> \<not> (\<exists>l \<in> set legislators. grouped tm now l)"
    show "layout engine tm now legislators diameter = Inl TypeError"
      by (rule layout_undefined[OF conjunct1[OF h] conjunct2[OF h]])
  qed
  have desc: "?n \<noteq> 129 \<longrightarrow> list_all (\<lambda>p. pos_angle p \<noteq> None) ?pooled
                     \<and> sorted_wrt (\<lambda>a b. the (pos_angle a) \<ge> the (pos_angle b)) ?positions"
  proof
    assume h: "?n \<noteq> 129"
    have ok: "list_all (\<lambda>p. pos_angle p \<noteq> None) ?pooled"
      by (rule allPositions_ok[OF h])
    have "sorted_wrt (\<lambda>a b. the (pos_angle a) \<ge> the (pos_angle b)) ?positions"
      by (rule sorted_sort_positions[OF ok])
    with ok show "list_all (\<lambda>p. pos_angle p \<noteq> None) ?pooled
                     \<and> sorted_wrt (\<lambda>a b. the (pos_angle a) \<ge> the (pos_angle b)) ?positions"
      by (rule conjI)
  qed
  have nan: "?n = 129 \<longrightarrow> nan_position \<in> set ?pooled \<and> ?positions = engine ?pooled"
  proof
    assume h: "?n = 129"
    have single: "row_positions diameter 4 1 = [nan_position]"
      by (simp add: row_positions_single nan_position_def)
    have mem: "nan_position \<in> set ?pooled"
      using h single by (simp add: allPositions_def rows_upt seatsPerRowArray_eq)
    moreover have "pos_angle nan_position = None" by (simp add: nan_position_def)
    ultimately have "\<exists>p \<in> set ?pooled. pos_angle p = None" by (rule rev_bexI)
    then have "\<not> list_all (\<lambda>p. pos_angle p \<noteq> None) ?pooled"
      by (simp add: list_all_iff)
    then have "?positions = engine ?pooled"
      by (simp add: sort_positions_def)
    with mem show "nan_position \<in> set ?pooled \<and> ?positions = engine ?pooled"
      by (rule conjI)
  qed
  show ?thesis
    unfolding Let_def by (intro conjI exact padded fails len perm desc nan)
qed

text \<open>An instance of the theorem above, on the example data.\<close>

theorem lockstep_blocks_witness:
  "reorders (\<lambda>ps. ps)
   \<and> list_all (grouped epoch_ms ex_now)
       [ex_legislator ''RN'', ex_legislator ''PS'', ex_legislator ''RN'', ex_legislator ''DC'']
   \<and> (\<exists>r. layout (\<lambda>ps. ps) epoch_ms ex_now
            [ex_legislator ''RN'', ex_legislator ''PS'', ex_legislator ''RN'', ex_legislator ''DC''] 300 = Inr r
         \<and> map seat_partyAlias (layout_seats r) = [''PS'', ''DC'', ''RN'', ''RN''])
   \<and> (\<exists>r. layout (\<lambda>ps. ps) epoch_ms ex_now
            [ex_legislator ''PS'', ex_legislator ''constructor'', ex_legislator ''RN'', ex_legislator ''toString''] 300 = Inr r
         \<and> map (\<lambda>(k, p). (k, partyCount p)) (layout_legend r) = [(''PS'', 1), (''RN'', 1)]
         \<and> map seat_partyAlias (layout_seats r) = [''PS'', ''RN'', ''RN'', ''RN''])
   \<and> layout (\<lambda>ps. ps) epoch_ms ex_now [ex_legislator ''constructor''] 300 = Inl TypeError
   \<and> length (replicate 129 (ex_legislator ''PS'')) = 129
   \<and> nan_position \<in> set (allPositions 300 (seatsPerRowArray 129))
   \<and> sort_positions (\<lambda>ps. ps) (allPositions 300 (seatsPerRowArray 129))
       = allPositions 300 (seatsPerRowArray 129)"
proof -
  let ?four = "[ex_legislator ''RN'', ex_legislator ''PS'', ex_legislator ''RN'', ex_legislator ''DC'']"
  let ?mixed = "[ex_legislator ''PS'', ex_legislator ''constructor'', ex_legislator ''RN'', ex_legislator ''toString'']"
  note at129 = lockstep_blocks[OF reorders_id, where tm = epoch_ms and now = ex_now and diameter = 300
      and legislators = "replicate 129 (ex_legislator ''PS'')", unfolded Let_def]
  note at4 = lockstep_blocks[OF reorders_id, where tm = epoch_ms and now = ex_now and diameter = 300
      and legislators = ?four, unfolded Let_def]
  note atm = lockstep_blocks[OF reorders_id, where tm = epoch_ms and now = ex_now and diameter = 300
      and legislators = ?mixed, unfolded Let_def]
  note atc = lockstep_blocks[OF reorders_id, where tm = epoch_ms and now = ex_now and diameter = 300
      and legislators = "[ex_legislator ''constructor'']", unfolded Let_def]
  have n129: "length (replicate 129 (ex_legislator ''PS'')) = 129" by simp
  have "nan_position \<in> set (allPositions 300 (seatsPerRowArray (length (replicate 129 (ex_legislator ''PS'')))))
     \<and> sort_positions (\<lambda>ps. ps) (allPositions 300 (seatsPerRowArray (length (replicate 129 (ex_legislator ''PS'')))))
         = (\<lambda>ps. ps) (allPositions 300 (seatsPerRowArray (length (replicate 129 (ex_legislator ''PS'')))))"
    using at129[THEN conjunct2, THEN conjunct2, THEN conjunct2, THEN conjunct2, THEN conjunct2, THEN conjunct2] n129
    by (rule mp)
  then have nan: "nan_position \<in> set (allPositions 300 (seatsPerRowArray 129))"
    and srt: "sort_positions (\<lambda>ps. ps) (allPositions 300 (seatsPerRowArray 129))
         = allPositions 300 (seatsPerRowArray 129)"
    by (simp_all only: n129)
  have "\<exists>r. layout (\<lambda>ps. ps) epoch_ms ex_now ?four 300 = Inr r
         \<and> layout_legend r = sortedParties (partyGroups epoch_ms ex_now ?four)
         \<and> layout_seats r = map2 mk_seat (take (length ?four) (sort_positions (\<lambda>ps. ps) (allPositions 300 (seatsPerRowArray (length ?four)))))
               (concat (map (\<lambda>(k, p). replicate (partyCount p) p) (layout_legend r)))
         \<and> map seat_partyAlias (layout_seats r)
               = concat (map (\<lambda>(k, p). replicate (partyCount p) (partyAlias p)) (layout_legend r))"
    using at4[THEN conjunct1] ex_all_grouped by (rule mp)
  then obtain r where run: "layout (\<lambda>ps. ps) epoch_ms ex_now ?four 300 = Inr r"
    and legend: "layout_legend r = sortedParties (partyGroups epoch_ms ex_now ?four)"
    and al: "map seat_partyAlias (layout_seats r)
         = concat (map (\<lambda>(k, p). replicate (partyCount p) (partyAlias p)) (layout_legend r))"
    by blast
  have al4: "map seat_partyAlias (layout_seats r) = [''PS'', ''DC'', ''RN'', ''RN'']"
    unfolding al legend ex_blocks by (simp add: ex_party_def numeral_2_eq_2)
  have four: "\<exists>r. layout (\<lambda>ps. ps) epoch_ms ex_now ?four 300 = Inr r
         \<and> map seat_partyAlias (layout_seats r) = [''PS'', ''DC'', ''RN'', ''RN'']"
    by (rule exI[where x = r]) (rule conjI[OF run al4])
  have gm: "\<exists>l \<in> set ?mixed. grouped epoch_ms ex_now l"
    by (simp add: grouped_PS)
  have "\<exists>r. layout (\<lambda>ps. ps) epoch_ms ex_now ?mixed 300 = Inr r
         \<and> layout_legend r = sortedParties (partyGroups epoch_ms ex_now ?mixed)
         \<and> layout_seats r = map2 mk_seat (take (length ?mixed) (sort_positions (\<lambda>ps. ps) (allPositions 300 (seatsPerRowArray (length ?mixed)))))
               (padded_blocks (sortedParties (partyGroups epoch_ms ex_now ?mixed)) (length ?mixed))"
    using atm[THEN conjunct2, THEN conjunct1] gm by (rule mp)
  then obtain m where runm: "layout (\<lambda>ps. ps) epoch_ms ex_now ?mixed 300 = Inr m"
    and legendm: "layout_legend m = sortedParties (partyGroups epoch_ms ex_now ?mixed)"
    and seatsm: "layout_seats m = map2 mk_seat (take (length ?mixed) (sort_positions (\<lambda>ps. ps) (allPositions 300 (seatsPerRowArray (length ?mixed)))))
               (padded_blocks (sortedParties (partyGroups epoch_ms ex_now ?mixed)) (length ?mixed))"
    by blast
  have nm: "length ?mixed = 4" by simp
  have "length (take (length ?mixed) (sort_positions (\<lambda>ps. ps) (allPositions 300 (seatsPerRowArray (length ?mixed)))))
      = length (padded_blocks (sortedParties (partyGroups epoch_ms ex_now ?mixed)) (length ?mixed))"
    by (simp add: length_padded_blocks length_sort_positions[OF reorders_id] length_allPositions)
  then have "map seat_partyAlias (layout_seats m)
      = map partyAlias (padded_blocks (sortedParties (partyGroups epoch_ms ex_now ?mixed)) (length ?mixed))"
    unfolding seatsm by (rule map_alias_seats)
  also have "\<dots> = map partyAlias (padded_blocks (sortedParties (partyGroups epoch_ms ex_now ?mixed)) 4)"
    by (simp only: nm)
  also have "\<dots> = [''PS'', ''RN'', ''RN'', ''RN'']"
    using ex_padded by (rule conjunct2)
  finally have alm: "map seat_partyAlias (layout_seats m) = [''PS'', ''RN'', ''RN'', ''RN'']" .
  have cm: "map (\<lambda>(k, p). (k, partyCount p)) (layout_legend m) = [(''PS'', 1), (''RN'', 1)]"
    unfolding legendm using ex_padded by (rule conjunct1)
  have mixed: "\<exists>r. layout (\<lambda>ps. ps) epoch_ms ex_now ?mixed 300 = Inr r
         \<and> map (\<lambda>(k, p). (k, partyCount p)) (layout_legend r) = [(''PS'', 1), (''RN'', 1)]
         \<and> map seat_partyAlias (layout_seats r) = [''PS'', ''RN'', ''RN'', ''RN'']"
    by (rule exI[where x = m]) (intro conjI runm cm alm)
  have "[ex_legislator ''constructor''] \<noteq> []
      \<and> \<not> (\<exists>l \<in> set [ex_legislator ''constructor'']. grouped epoch_ms ex_now l)"
    by (simp add: not_grouped_constructor)
  with atc[THEN conjunct2, THEN conjunct2, THEN conjunct1]
  have none: "layout (\<lambda>ps. ps) epoch_ms ex_now [ex_legislator ''constructor''] 300 = Inl TypeError"
    by (rule mp)
  show ?thesis
    by (intro conjI reorders_id ex_all_grouped four mixed none n129 nan srt)
qed

text \<open>
  C7. After every prefix of the scan, and so in the result, every merged entry has a
  period count of at least one, equal to the number of its original intervals; these are
  sorted by start time; the entry starts where the first of them starts and ends where
  the last of them ends.
\<close>

theorem merged_record_invariants:
  "(\<forall>n. \<forall>r \<in> set (foldl (merge_step tm) [] (take n (sort_by_start tm (normalizeMilitancias ms)))).
       periodCount r \<ge> 1 \<and> periodCount r = length (originalMilitancias r)
     \<and> sorted_wrt (\<lambda>a b. tm (FechaInicio a) \<le> tm (FechaInicio b)) (originalMilitancias r)
     \<and> merged_FechaInicio r = FechaInicio (hd (originalMilitancias r))
     \<and> merged_FechaTermino r = FechaTermino (last (originalMilitancias r)))
   \<and> (\<forall>r \<in> set (mergeSequentialMilitancias tm ms).
       periodCount r \<ge> 1 \<and> periodCount r = length (originalMilitancias r)
     \<and> sorted_wrt (\<lambda>a b. tm (FechaInicio a) \<le> tm (FechaInicio b)) (originalMilitancias r)
     \<and> merged_FechaInicio r = FechaInicio (hd (originalMilitancias r))
     \<and> merged_FechaTermino r = FechaTermino (last (originalMilitancias r)))"
proof -
  let ?s = "sort_by_start tm (normalizeMilitancias ms)"
  have s: "\<And>n. sorted_wrt (\<lambda>a b. tm (FechaInicio a) \<le> tm (FechaInicio b)) (take n ?s)"
    by (rule sorted_wrt_take) (rule sort_by_start_sorted)
  have a: "\<forall>n. \<forall>r \<in> set (foldl (merge_step tm) [] (take n ?s)).
       periodCount r \<ge> 1 \<and> periodCount r = length (originalMilitancias r)
     \<and> sorted_wrt (\<lambda>a b. tm (FechaInicio a) \<le> tm (FechaInicio b)) (originalMilitancias r)
     \<and> merged_FechaInicio r = FechaInicio (hd (originalMilitancias r))
     \<and> merged_FechaTermino r = FechaTermino (last (originalMilitancias r))"
    using scan_record_inv[OF s] by blast
  have b: "\<forall>r \<in> set (mergeSequentialMilitancias tm ms).
       periodCount r \<ge> 1 \<and> periodCount r = length (originalMilitancias r)
     \<and> sorted_wrt (\<lambda>a b. tm (FechaInicio a) \<le> tm (FechaInicio b)) (originalMilitancias r)
     \<and> merged_FechaInicio r = FechaInicio (hd (originalMilitancias r))
     \<and> merged_FechaTermino r = FechaTermino (last (originalMilitancias r))"
    unfolding mergeSequentialMilitancias_def Let_def
    using scan_record_inv[OF sort_by_start_sorted[of tm "normalizeMilitancias ms"]] by blast
  from a b show ?thesis by (rule conjI)
qed

text \<open>An instance of the theorem above, on the example data.\<close>

theorem merged_record_invariants_witness:
  "mergeSequentialMilitancias epoch_ms
      (Many [ex_militancia ''2020-01-02'' ''2022-03-11'' ex_PS,
             ex_militancia ''2018-03-11'' ''2020-01-01'' ex_PS]) \<noteq> []
   \<and> list_all (\<lambda>r. periodCount r = 2 \<and> length (originalMilitancias r) = 2
         \<and> merged_FechaInicio r = ''2018-03-11'' \<and> merged_FechaTermino r = ''2022-03-11'')
       (mergeSequentialMilitancias epoch_ms
         (Many [ex_militancia ''2020-01-02'' ''2022-03-11'' ex_PS,
                ex_militancia ''2018-03-11'' ''2020-01-01'' ex_PS]))"
  using merged_record_invariants[where tm = epoch_ms and ms = "Many [ex_militancia ''2020-01-02'' ''2022-03-11'' ex_PS,
             ex_militancia ''2018-03-11'' ''2020-01-01'' ex_PS]"]
  unfolding ex_merged by (simp add: ex_militancia_def)

text \<open>
  C8. For the empty list both versions return no seats and an empty legend, with no
  error. No party group is made; the four inner rows still give 128 positions, none of
  them with a \<^verbatim>\<open>NaN\<close> angle, and none is used; the current party group is absent and the
  assignment loop, which runs zero times, never reads it.
\<close>

theorem empty_layout:
  "layout engine tm now [] diameter = Inr \<lparr> layout_seats = [], layout_legend = [] \<rparr>
   \<and> legacy_layout tm now [] diameter = Inr \<lparr> layout_seats = [], layout_legend = [] \<rparr>
   \<and> partyGroups tm now [] = []
   \<and> length (allPositions diameter (seatsPerRowArray 0)) = 128
   \<and> list_all (\<lambda>p. pos_angle p \<noteq> None) (allPositions diameter (seatsPerRowArray 0))
   \<and> currentPartyData (initial_state [] []) = None
   \<and> assign_loop [] positions [0..<0] (initial_state [] []) = Inr (initial_state [] [])"
proof -
  have a: "legacy_layout tm now [] diameter = Inr \<lparr> layout_seats = [], layout_legend = [] \<rparr>"
    by (simp add: legacy_layout_def Let_def partyGroups_counted sort_by_count_desc_def rows_upt
        initial_state_def legacy_seatsPerRow_def legacy_seatsInRow_def object_entries_def)
  have b: "list_all (\<lambda>p. pos_angle p \<noteq> None) (allPositions diameter (seatsPerRowArray 0))"
    by (rule allPositions_ok) simp
  have c: "length (allPositions diameter (seatsPerRowArray 0)) = 128"
    by (simp add: length_allPositions)
  show ?thesis
    using a b c by (simp add: layout_empty partyGroups_counted initial_state_def del: not_None_eq)
qed

text \<open>
  C9. Two runs of the chart, one after the other, on the same legislators and the same
  diameter. The first run starts in any state \<open>w\<close> of the shared objects; it reads the
  clock once per legislator and, for every party id that names an inherited member,
  writes the property \<^verbatim>\<open>count\<close> of that member; the second run starts in the state the
  first one leaves and reads the clock at the following instants. If for every
  legislator the two readings give the same current membership (as they do when the
  present moment is the same), the two runs give the same result: the same seats and
  legend, or the same error. The result is also the same from any other contents of the
  shared objects, so what the runs write there has no influence on either. The present
  moment does have one: for the legislator whose membership ends on 2026-03-11 the
  results at the two moments differ.
\<close>

theorem two_runs_agree:
  assumes "\<forall>i < length legislators.
       getCurrentMilitancia tm (nows (clock_reads w + i)) (Diputado (legislators ! i))
     = getCurrentMilitancia tm (nows (clock_reads w + length legislators + i)) (Diputado (legislators ! i))"
  shows "(let first = layout_run engine tm nows w legislators diameter;
              second = layout_run engine tm nows (snd first) legislators diameter
          in fst second = fst first
           \<and> clock_reads (snd first) = clock_reads w + length legislators
           \<and> clock_reads (snd second) = clock_reads w + 2 * length legislators
           \<and> fst (layout_run engine tm nows (w \<lparr> count_written := written \<rparr>) legislators diameter) = fst first)
       \<and> layout (\<lambda>ps. ps) epoch_ms ex_now [ex_legislator ''PS''] diameter
           \<noteq> layout (\<lambda>ps. ps) epoch_ms (ex_now + 100000000000) [ex_legislator ''PS''] diameter"
proof -
  let ?first = "layout_run engine tm nows w legislators diameter"
  let ?second = "layout_run engine tm nows (snd ?first) legislators diameter"
  have c1: "clock_reads (snd ?first) = clock_reads w + length legislators"
    by (rule layout_run_clock)
  have c2: "clock_reads (snd ?second) = clock_reads w + 2 * length legislators"
    by (simp add: layout_run_clock)
  have "\<forall>i < length legislators.
       getCurrentMilitancia tm (nows (clock_reads w + i)) (Diputado (legislators ! i))
     = getCurrentMilitancia tm (nows (clock_reads (snd ?first) + i)) (Diputado (legislators ! i))"
    using assms by (simp only: c1)
  then have "fst ?first = fst ?second" by (rule layout_run_agrees)
  then have same: "fst ?second = fst ?first" by (rule sym)
  have hidden: "fst (layout_run engine tm nows (w \<lparr> count_written := written \<rparr>) legislators diameter) = fst ?first"
    by (rule layout_run_agrees) simp
  have g1: "\<exists>l \<in> set [ex_legislator ''PS'']. grouped epoch_ms ex_now l"
    by (simp add: grouped_PS)
  have g2: "\<exists>l \<in> set [ex_legislator ''PS'']. grouped epoch_ms (ex_now + 100000000000) l"
    by (simp add: ex_clock_grouped)
  have l1: "map fst (layout_legend (projr (layout (\<lambda>ps. ps) epoch_ms ex_now [ex_legislator ''PS''] diameter)))
      = [''PS'']"
    using ex_clock_legend by (simp add: layout_eq[OF reorders_id g1])
  have l2: "map fst (layout_legend (projr (layout (\<lambda>ps. ps) epoch_ms (ex_now + 100000000000) [ex_legislator ''PS''] diameter)))
      = [''IND'']"
    using ex_clock_legend by (simp add: layout_eq[OF reorders_id g2])
  have differ: "layout (\<lambda>ps. ps) epoch_ms ex_now [ex_legislator ''PS''] diameter
           \<noteq> layout (\<lambda>ps. ps) epoch_ms (ex_now + 100000000000) [ex_legislator ''PS''] diameter"
  proof
    assume eq: "layout (\<lambda>ps. ps) epoch_ms ex_now [ex_legislator ''PS''] diameter
           = layout (\<lambda>ps. ps) epoch_ms (ex_now + 100000000000) [ex_legislator ''PS''] diameter"
    from l1 have "map fst (layout_legend (projr (layout (\<lambda>ps. ps) epoch_ms (ex_now + 100000000000) [ex_legislator ''PS''] diameter)))
      = [''PS'']"
      by (simp only: eq)
    then have "[''IND''] = [''PS'']" by (simp only: l2)
    then show False by simp
  qed
  show ?thesis
    unfolding Let_def by (intro conjI same c1 c2 hidden differ)
qed

text \<open>An instance of the theorem above, on the example data.\<close>

theorem two_runs_agree_witness:
  "(let legs = [ex_legislator ''__proto__'', ex_legislator ''count'', ex_legislator ''PS''];
        first = layout_run (\<lambda>ps. ps) epoch_ms (\<lambda>i. ex_now + int i) initial_world legs 300;
        second = layout_run (\<lambda>ps. ps) epoch_ms (\<lambda>i. ex_now + int i) (snd first) legs 300
    in fst second = fst first
     \<and> snd first = \<lparr> clock_reads = 3, count_written = [''__proto__''] \<rparr>
     \<and> snd second = \<lparr> clock_reads = 6, count_written = [''__proto__'', ''__proto__''] \<rparr>
     \<and> (\<exists>r. fst first = Inr r
            \<and> map (\<lambda>(k, p). (k, partyCount p)) (layout_legend r) = [(''PS'', 1), (''count'', 1)]
            \<and> map seat_partyAlias (layout_seats r) = [''PS'', ''count'', ''count'']))"
proof -
  let ?legs = "[ex_legislator ''__proto__'', ex_legislator ''count'', ex_legislator ''PS'']"
  let ?nows = "\<lambda>i. ex_now + int i"
  let ?first = "layout_run (\<lambda>ps. ps) epoch_ms ?nows initial_world ?legs 300"
  let ?second = "layout_run (\<lambda>ps. ps) epoch_ms ?nows (snd ?first) ?legs 300"
  let ?parties = "sortedParties (partyGroups epoch_ms ex_now ?legs)"
  let ?positions = "sort_positions (\<lambda>ps. ps) (allPositions 300 (seatsPerRowArray (length ?legs)))"
  have hyp: "\<forall>i < length ?legs.
       getCurrentMilitancia epoch_ms (?nows (clock_reads initial_world + i)) (Diputado (?legs ! i))
     = getCurrentMilitancia epoch_ms (?nows (clock_reads initial_world + length ?legs + i)) (Diputado (?legs ! i))"
  proof (intro allI impI)
    fix i assume "i < length ?legs"
    then have "i = 0 \<or> i = 1 \<or> i = 2" by auto
    then show "getCurrentMilitancia epoch_ms (?nows (clock_reads initial_world + i)) (Diputado (?legs ! i))
     = getCurrentMilitancia epoch_ms (?nows (clock_reads initial_world + length ?legs + i)) (Diputado (?legs ! i))"
      by (auto simp: initial_world_def ex_resolution)
  qed
  have same: "fst ?second = fst ?first"
    using two_runs_agree[where engine = "\<lambda>ps. ps" and tm = epoch_ms and nows = ?nows
        and w = initial_world and legislators = ?legs and diameter = 300 and written = "[]", OF hyp]
    unfolding Let_def by blast
  have w1: "snd ?first = \<lparr> clock_reads = 3, count_written = [''__proto__''] \<rparr>"
    using ex_two_runs_world by (simp add: layout_run_def Let_def)
  have w2: "snd ?second = \<lparr> clock_reads = 6, count_written = [''__proto__'', ''__proto__''] \<rparr>"
    unfolding w1 using ex_two_runs_world by (simp add: layout_run_def Let_def)
  have "\<forall>i < length ?legs.
       getCurrentMilitancia epoch_ms (?nows (clock_reads initial_world + i)) (Diputado (?legs ! i))
     = getCurrentMilitancia epoch_ms ((\<lambda>i. ex_now) (clock_reads initial_world + i)) (Diputado (?legs ! i))"
  proof (intro allI impI)
    fix i assume "i < length ?legs"
    then have "i = 0 \<or> i = 1 \<or> i = 2" by auto
    then show "getCurrentMilitancia epoch_ms (?nows (clock_reads initial_world + i)) (Diputado (?legs ! i))
     = getCurrentMilitancia epoch_ms ((\<lambda>i. ex_now) (clock_reads initial_world + i)) (Diputado (?legs ! i))"
      by (auto simp: initial_world_def ex_resolution)
  qed
  then have "fst ?first = fst (layout_run (\<lambda>ps. ps) epoch_ms (\<lambda>i. ex_now) initial_world ?legs 300)"
    by (rule layout_run_agrees)
  then have run: "fst ?first = Inr \<lparr> layout_seats = map2 mk_seat (take (length ?legs) ?positions)
                                       (padded_blocks ?parties (length ?legs)),
                                   layout_legend = ?parties \<rparr>"
    using layout_eq[OF reorders_id grouped_in_example, of 300] by (simp only: layout_def)
  have legend: "map (\<lambda>(k, p). (k, partyCount p)) ?parties = [(''PS'', 1), (''count'', 1)]"
    using ex_two_runs_parties by simp
  have n: "length ?legs = 3" by simp
  have "length (take (length ?legs) ?positions) = length (padded_blocks ?parties (length ?legs))"
    by (simp add: length_padded_blocks length_sort_positions[OF reorders_id] length_allPositions)
  then have "map seat_partyAlias (map2 mk_seat (take (length ?legs) ?positions) (padded_blocks ?parties (length ?legs)))
      = map partyAlias (padded_blocks ?parties (length ?legs))"
    by (rule map_alias_seats)
  also have "\<dots> = map partyAlias (padded_blocks ?parties 3)"
    by (simp only: n)
  also have "\<dots> = [''PS'', ''count'', ''count'']"
    using ex_two_runs_parties by (rule conjunct2)
  finally have al: "map seat_partyAlias (map2 mk_seat (take (length ?legs) ?positions) (padded_blocks ?parties (length ?legs)))
      = [''PS'', ''count'', ''count'']" .
  have ex: "\<exists>r. fst ?first = Inr r
            \<and> map (\<lambda>(k, p). (k, partyCount p)) (layout_legend r) = [(''PS'', 1), (''count'', 1)]
            \<and> map seat_partyAlias (layout_seats r) = [''PS'', ''count'', ''count'']"
    unfolding run using legend al by simp
  show ?thesis
    unfolding Let_def by (intro conjI same w1 w2 ex)
qed

text \<open>
  C10. The current membership is the first interval, in the order of the normalised
  list, that contains the present moment, and there is none exactly when no interval
  contains it. A legislator without one is counted under \<^verbatim>\<open>IND\<close>: the groups have an
  entry for that key, with the gray colour \<^verbatim>\<open>#808080\<close> and the centre alignment, whose
  count is the number of legislators counted under \<^verbatim>\<open>IND\<close>.
\<close>

theorem current_party_lookup:
  "(let ms = normalizeMilitancias (Militancias d)
    in (getCurrentMilitancia tm now d = None \<longleftrightarrow> (\<forall>m \<in> set ms. \<not> covers tm now m))
     \<and> (\<forall>m. getCurrentMilitancia tm now d = Some m \<longleftrightarrow>
            (\<exists>i < length ms. ms ! i = m \<and> covers tm now (ms ! i) \<and> (\<forall>j < i. \<not> covers tm now (ms ! j)))))
   \<and> (leg \<in> set legislators \<and> getCurrentMilitancia tm now (Diputado leg) = None \<longrightarrow>
        partyId_of tm now leg = ''IND''
        \<and> (\<exists>p. map_of (partyGroups tm now legislators) ''IND'' = Some p
              \<and> partyAlias p = ''IND'' \<and> color p = ''#808080'' \<and> alignment p = Center
              \<and> partyCount p = length (filter (\<lambda>l. partyId_of tm now l = ''IND'') legislators)
              \<and> 1 \<le> partyCount p))"
proof -
  let ?ms = "normalizeMilitancias (Militancias d)"
  have g: "getCurrentMilitancia tm now d = find (covers tm now) ?ms"
    by (simp add: getCurrentMilitancia_def covers_def[abs_def] Let_def)
  have none: "getCurrentMilitancia tm now d = None \<longleftrightarrow> (\<forall>m \<in> set ?ms. \<not> covers tm now m)"
    unfolding g find_None_iff by blast
  have some: "\<forall>m. getCurrentMilitancia tm now d = Some m \<longleftrightarrow>
            (\<exists>i < length ?ms. ?ms ! i = m \<and> covers tm now (?ms ! i) \<and> (\<forall>j < i. \<not> covers tm now (?ms ! j)))"
    unfolding g find_first by blast
  have ind: "partyId_of tm now leg = ''IND''
        \<and> (\<exists>p. map_of (partyGroups tm now legislators) ''IND'' = Some p
              \<and> partyAlias p = ''IND'' \<and> color p = ''#808080'' \<and> alignment p = Center
              \<and> partyCount p = length (filter (\<lambda>l. partyId_of tm now l = ''IND'') legislators)
              \<and> 1 \<le> partyCount p)"
    if mem: "leg \<in> set legislators" and cur: "getCurrentMilitancia tm now (Diputado leg) = None"
  proof -
    let ?groups = "partyGroups tm now legislators"
    let ?ids = "map (partyId_of tm now) legislators"
    have id: "partyId_of tm now leg = ''IND''"
      using cur by (simp add: partyId_of_def current_partyId_def)
    then have "''IND'' \<in> set ?ids" using mem by force
    then have "''IND'' \<in> set (filter (\<lambda>k. \<not> inherited k) ?ids)"
      using not_inherited_IND by simp
    then have "''IND'' \<in> set (map fst ?groups)"
      by (simp only: partyGroups_keys set_first_seen)
    then obtain p where p: "(''IND'', p) \<in> set ?groups" by auto
    have look: "map_of ?groups ''IND'' = Some p"
      using p partyGroups_distinct[of tm now legislators] by simp
    have ok: "entry_ok ?ids (''IND'', p)" using p by (rule partyGroups_entry)
    have pos: "1 \<le> partyCount p" using partyGroups_count_pos[OF p] by simp
    have col: "party_color ''IND'' = ''#808080''" by (simp add: party_color_def PARTY_COLORS_def)
    have al: "party_alignment ''IND'' = Center" by (simp add: party_alignment_def PARTY_ALIGNMENT_def)
    show ?thesis
      using id look ok pos col al by (simp add: entry_ok_def count_list_map_filter)
  qed
  show ?thesis
    unfolding Let_def using none some ind by blast
qed

text \<open>An instance of the theorem above, on the example data.\<close>

theorem current_party_lookup_witness:
  "getCurrentMilitancia epoch_ms ex_now ex_two_current
     = Some (ex_militancia ''2018-03-11'' ''2026-03-11'' ex_PS)
   \<and> ex_expired \<in> set [ex_legislator ''PS'', ex_expired]
   \<and> getCurrentMilitancia epoch_ms ex_now (Diputado ex_expired) = None
   \<and> map_of (partyGroups epoch_ms ex_now [ex_legislator ''PS'', ex_expired]) ''IND''
     = Some \<lparr> partyName = ''Independiente'', partyAlias = ''IND'', partyCount = 1,
              color = ''#808080'', alignment = Center \<rparr>"
proof -
  have a: "getCurrentMilitancia epoch_ms ex_now ex_two_current
     = Some (ex_militancia ''2018-03-11'' ''2026-03-11'' ex_PS)"
    by (simp add: getCurrentMilitancia_def ex_two_current_def ex_militancia_def epoch_ms_def ex_now_def)
  have b: "ex_expired \<in> set [ex_legislator ''PS'', ex_expired]" by simp
  have c: "getCurrentMilitancia epoch_ms ex_now (Diputado ex_expired) = None"
    by (simp add: getCurrentMilitancia_def ex_expired_def ex_militancia_def epoch_ms_def ex_now_def)
  from current_party_lookup[where d = ex_two_current and tm = epoch_ms and now = ex_now
      and leg = ex_expired and legislators = "[ex_legislator ''PS'', ex_expired]"] b c
  obtain p where "map_of (partyGroups epoch_ms ex_now [ex_legislator ''PS'', ex_expired]) ''IND'' = Some p"
    and "color p = ''#808080''" and "alignment p = Center"
    by blast
  then show ?thesis using a b c ex_ind by simp
qed

end
